theory Spec2Isabelle
  imports Main "HOL-Library.Multiset" "HOL-Library.FSet"
begin

section \<open>Formulas as Python objects\<close>

text \<open>
  The classes of \<^verbatim>\<open>flloat/base/Formula.py\<close> fix the layout of every formula object:
  an \<^verbatim>\<open>AtomicFormula\<close> has the field \<^verbatim>\<open>s\<close>, a \<^verbatim>\<open>UnaryOperator\<close> the field \<^verbatim>\<open>f\<close>, a
  \<^verbatim>\<open>BinaryOperator\<close> the tuple \<^verbatim>\<open>formulas\<close>, and a \<^verbatim>\<open>CommutativeBinaryOperator\<close> the
  tuple \<^verbatim>\<open>formulas\<close> together with \<^verbatim>\<open>formulas_set = frozenset(formulas)\<close> (every
  construction in the sources leaves \<^verbatim>\<open>idempotence\<close> at its default \<^verbatim>\<open>True\<close>).
  \<^verbatim>\<open>LTLfAtomic\<close> adds the field \<^verbatim>\<open>a\<close>, the propositional atom it wraps; its \<^verbatim>\<open>s\<close> is
  \<^verbatim>\<open>a.s\<close>. The concrete class of an object, \<^verbatim>\<open>type(self)\<close>, is a tag; the tags are
  grouped by the base class that gives the layout. Tags end in \<open>T\<close>; the names without
  it are the constructor calls of the source (\<^verbatim>\<open>PLTrue()\<close>, \<^verbatim>\<open>LTLfUntil([...])\<close>).
  A method \<^verbatim>\<open>_m\<close> of the source is named \<open>u_m\<close>.
\<close>

type_synonym symbol = string

datatype atomic_cls = PLAtomicT | PLTrueT | PLFalseT
datatype ltlf_atomic_cls = LTLfAtomicT | LTLfTrueT | LTLfFalseT
datatype unary_cls =
  PLNotT | LTLfNotT | LTLfNextT | LTLfWeakNextT | LTLfEventuallyT | LTLfAlwaysT
datatype binary_cls = LTLfImpliesT | LTLfUntilT | LTLfReleaseT
datatype comm_cls = PLAndT | PLOrT | LTLfAndT | LTLfOrT | LTLfEquivalenceT

datatype formula =
    AtomicFormula atomic_cls symbol
  | LTLfAtomicFormula ltlf_atomic_cls formula
  | UnaryOperator unary_cls formula
  | BinaryOperator binary_cls "formula list"
  | CommutativeBinaryOperator comm_cls "formula list"

datatype error =
  Exception | AssertionError | AttributeError | TypeError | IndexError

subsection \<open>Construction: \<^verbatim>\<open>BinaryOperator.__init__\<close> and \<^verbatim>\<open>_popup\<close>\<close>

text \<open>
  \<^verbatim>\<open>_popup\<close> walks \<^verbatim>\<open>self.formulas\<close>; a child of the very class of \<^verbatim>\<open>self\<close> is replaced by
  the result of its own \<^verbatim>\<open>_popup()\<close>, any other child is kept.
\<close>

fun u_popup :: "formula \<Rightarrow> formula list" where
  "u_popup (BinaryOperator c formulas) =
     concat (map (\<lambda>child. case child of
                     BinaryOperator c' _ \<Rightarrow> if c' = c then u_popup child else [child]
                   | _ \<Rightarrow> [child]) formulas)"
| "u_popup (CommutativeBinaryOperator c formulas) =
     concat (map (\<lambda>child. case child of
                     CommutativeBinaryOperator c' _ \<Rightarrow> if c' = c then u_popup child else [child]
                   | _ \<Rightarrow> [child]) formulas)"
| "u_popup _ = []"

definition BinaryOperator_init :: "binary_cls \<Rightarrow> formula list \<Rightarrow> error + formula" where
  "BinaryOperator_init c formulas =
     (if length formulas \<ge> 2
      then Inr (BinaryOperator c (u_popup (BinaryOperator c formulas)))
      else Inl AssertionError)"

definition CommutativeBinaryOperator_init :: "comm_cls \<Rightarrow> formula list \<Rightarrow> error + formula" where
  "CommutativeBinaryOperator_init c formulas =
     (if length formulas \<ge> 2
      then Inr (CommutativeBinaryOperator c (u_popup (CommutativeBinaryOperator c formulas)))
      else Inl AssertionError)"

subsection \<open>\<^verbatim>\<open>Formula.__eq__\<close> and \<^verbatim>\<open>Formula.__hash__\<close>\<close>

text \<open>
  What the interpreter and the modules outside the sources decide is a parameter: the
  hash of a \<^verbatim>\<open>Symbol\<close>, of a string and of the class object \<^verbatim>\<open>LTLfAtomic\<close>, the hash of a
  tuple as a function of the hashes of its components in order, the hash of a frozenset
  as a function of the hashes of its elements without order, and the
  \<^verbatim>\<open>operator_symbol\<close> of the classes that take it from elsewhere.
\<close>

record python =
  hash_Symbol :: "symbol \<Rightarrow> int"
  hash_str :: "string \<Rightarrow> int"
  hash_LTLfAtomic_class :: int
  hash_tuple :: "int list \<Rightarrow> int"
  hash_frozenset :: "int multiset \<Rightarrow> int"
  unary_symbol :: "unary_cls \<Rightarrow> string"
  binary_symbol :: "binary_cls \<Rightarrow> string"
  comm_symbol :: "comm_cls \<Rightarrow> string"

definition operator_symbol_unary :: "python \<Rightarrow> unary_cls \<Rightarrow> string" where
  "operator_symbol_unary p c =
     (case c of LTLfNextT \<Rightarrow> ''X'' | LTLfEventuallyT \<Rightarrow> ''F'' | LTLfAlwaysT \<Rightarrow> ''G''
      | _ \<Rightarrow> unary_symbol p c)"

definition operator_symbol_binary :: "python \<Rightarrow> binary_cls \<Rightarrow> string" where
  "operator_symbol_binary p c =
     (case c of LTLfUntilT \<Rightarrow> ''U'' | LTLfReleaseT \<Rightarrow> ''R'' | _ \<Rightarrow> binary_symbol p c)"

text \<open>
  A frozenset is the list of its entries in insertion order. An element is found in it
  when a stored entry has the same hash and compares equal to it (stored entry on the
  left); \<^verbatim>\<open>frozenset(xs)\<close> inserts the elements of \<open>xs\<close> one by one and keeps the first
  of those it finds equal. Two frozensets are equal when they have the same number of
  entries and every entry of the first is found in the second. (The interpreter may
  first compare the hashes of the two sets when both are already known; equal sets
  of formulas have equal hashes, see \<open>frozenset_hashes_abstraction\<close> and
  \<open>eq_hash_canon\<close>, so that test never changes the answer.)
\<close>

definition set_contains :: "('a \<Rightarrow> int) \<Rightarrow> ('a \<Rightarrow> 'a \<Rightarrow> bool) \<Rightarrow> 'a list \<Rightarrow> 'a \<Rightarrow> bool" where
  "set_contains hsh e s x = (\<exists>k \<in> set s. hsh k = hsh x \<and> e k x)"

fun set_add_all :: "('a \<Rightarrow> int) \<Rightarrow> ('a \<Rightarrow> 'a \<Rightarrow> bool) \<Rightarrow> 'a list \<Rightarrow> 'a list \<Rightarrow> 'a list" where
  "set_add_all hsh e s [] = s"
| "set_add_all hsh e s (x # xs) =
     set_add_all hsh e (if set_contains hsh e s x then s else s @ [x]) xs"

definition frozenset :: "('a \<Rightarrow> int) \<Rightarrow> ('a \<Rightarrow> 'a \<Rightarrow> bool) \<Rightarrow> 'a list \<Rightarrow> 'a list" where
  "frozenset hsh e xs = set_add_all hsh e [] xs"

definition frozenset_eq :: "('a \<Rightarrow> int) \<Rightarrow> ('a \<Rightarrow> 'a \<Rightarrow> bool) \<Rightarrow> 'a list \<Rightarrow> 'a list \<Rightarrow> bool" where
  "frozenset_eq hsh e s t = (length s = length t \<and> (\<forall>x \<in> set s. set_contains hsh e t x))"

lemma set_add_all_subset: "set (set_add_all hsh e s xs) \<subseteq> set s \<union> set xs"
proof (induction xs arbitrary: s)
  case Nil
  then show ?case by simp
next
  case (Cons x xs)
  show ?case
    using Cons.IH[of "if set_contains hsh e s x then s else s @ [x]"]
    by (auto split: if_splits)
qed

lemma frozenset_subset: "k \<in> set (frozenset hsh e xs) \<Longrightarrow> k \<in> set xs"
  using set_add_all_subset[of hsh e "[]" xs] by (auto simp: frozenset_def)

lemma set_add_all_cong:
  assumes "\<And>k. k \<in> set s \<union> set xs \<Longrightarrow> hsh k = hsh' k"
    and "\<And>k x. k \<in> set s \<union> set xs \<Longrightarrow> x \<in> set s \<union> set xs \<Longrightarrow> e k x = e' k x"
  shows "set_add_all hsh e s xs = set_add_all hsh' e' s xs"
  using assms
proof (induction xs arbitrary: s)
  case Nil
  then show ?case by simp
next
  case (Cons x xs)
  have c: "set_contains hsh e s x = set_contains hsh' e' s x"
    using Cons.prems by (auto simp: set_contains_def)
  show ?case
    using Cons.prems by (auto simp: c intro!: Cons.IH)
qed

lemma frozenset_cong [fundef_cong]:
  "xs = ys \<Longrightarrow> (\<And>k. k \<in> set ys \<Longrightarrow> hsh k = hsh' k) \<Longrightarrow>
   (\<And>k x. k \<in> set ys \<Longrightarrow> x \<in> set ys \<Longrightarrow> e k x = e' k x) \<Longrightarrow>
   frozenset hsh e xs = frozenset hsh' e' ys"
  using set_add_all_cong[of "[]" ys hsh hsh' e e'] by (simp add: frozenset_def)

lemma frozenset_eq_cong [fundef_cong]:
  "s = s' \<Longrightarrow> t = t' \<Longrightarrow> (\<And>k. k \<in> set s' \<union> set t' \<Longrightarrow> hsh k = hsh' k) \<Longrightarrow>
   (\<And>k x. k \<in> set t' \<Longrightarrow> x \<in> set s' \<Longrightarrow> e k x = e' k x) \<Longrightarrow>
   frozenset_eq hsh e s t = frozenset_eq hsh' e' s' t'"
  by (auto simp: frozenset_eq_def set_contains_def)

lemma size_list_member: "x \<in> set xs \<Longrightarrow> size x < size_list size xs"
  by (induction xs) auto

lemma zip_both: "(a, b) \<in> set (zip xs ys) \<Longrightarrow> a \<in> set xs \<and> b \<in> set ys"
  by (auto dest: set_zip_leftD set_zip_rightD)

lemma eq_hash_term1:
  "a \<in> set xs \<or> a \<in> set ys \<Longrightarrow> b \<in> set xs \<or> b \<in> set ys \<Longrightarrow>
   2 * max (size a) (size b) < Suc (Suc (2 * max (size_list size xs) (size_list size ys)))"
  using size_list_member[of a xs] size_list_member[of b ys]
    size_list_member[of a ys] size_list_member[of b xs]
  by (auto simp add: max_def)

lemma eq_hash_term2:
  "a \<in> set xs \<or> a \<in> set ys \<Longrightarrow>
   2 * size a < Suc (Suc (Suc (2 * max (size_list size xs) (size_list size ys))))"
  using size_list_member[of a xs] size_list_member[of a ys] by (auto simp add: max_def)

lemma eq_hash_term3: "a \<in> set xs \<Longrightarrow> 2 * size a < Suc (Suc (2 * size_list size xs))"
  using size_list_member[of a xs] by simp

lemma eq_hash_term4:
  "a \<in> set xs \<Longrightarrow> b \<in> set xs \<Longrightarrow> 2 * max (size a) (size b) < Suc (2 * size_list size xs)"
  using size_list_member[of a xs] size_list_member[of b xs] by (simp add: max_def)

text \<open>
  \<^verbatim>\<open>__eq__\<close> asks for the same class and equal \<^verbatim>\<open>_members()\<close>; \<^verbatim>\<open>__hash__\<close> hashes
  \<^verbatim>\<open>_members()\<close>. The members are \<^verbatim>\<open>s\<close> for an atom, \<^verbatim>\<open>(LTLfAtomic, a)\<close> for an LTLf atom,
  \<^verbatim>\<open>(operator_symbol, f)\<close> for a unary operator, \<^verbatim>\<open>(operator_symbol,) + formulas\<close> for a
  binary operator and \<^verbatim>\<open>(operator_symbol, formulas_set)\<close> for a commutative one. Objects
  of one class share the operator symbol, so that component always compares equal.
\<close>

function (sequential) eq :: "python \<Rightarrow> formula \<Rightarrow> formula \<Rightarrow> bool"
  and hash :: "python \<Rightarrow> formula \<Rightarrow> int" where
  "eq p (AtomicFormula c s) (AtomicFormula c' s') = (c = c' \<and> s = s')"
| "eq p (LTLfAtomicFormula c a) (LTLfAtomicFormula c' a') = (c = c' \<and> eq p a a')"
| "eq p (UnaryOperator c f) (UnaryOperator c' f') = (c = c' \<and> eq p f f')"
| "eq p (BinaryOperator c fs) (BinaryOperator c' fs') =
     (c = c' \<and> length fs = length fs' \<and> (\<forall>(f, f') \<in> set (zip fs fs'). eq p f f'))"
| "eq p (CommutativeBinaryOperator c fs) (CommutativeBinaryOperator c' fs') =
     (c = c' \<and> frozenset_eq (hash p) (eq p)
                  (frozenset (hash p) (eq p) fs) (frozenset (hash p) (eq p) fs'))"
| "eq p _ _ = False"
| "hash p (AtomicFormula c s) = hash_Symbol p s"
| "hash p (LTLfAtomicFormula c a) = hash_tuple p [hash_LTLfAtomic_class p, hash p a]"
| "hash p (UnaryOperator c f) =
     hash_tuple p [hash_str p (operator_symbol_unary p c), hash p f]"
| "hash p (BinaryOperator c fs) =
     hash_tuple p (hash_str p (operator_symbol_binary p c) # map (hash p) fs)"
| "hash p (CommutativeBinaryOperator c fs) =
     hash_tuple p [hash_str p (comm_symbol p c),
       hash_frozenset p (mset (map (hash p) (frozenset (hash p) (eq p) fs)))]"
  by pat_completeness auto
termination
  apply (relation "measure (\<lambda>x. case x of
            Inl (p, a, b) \<Rightarrow> 2 * max (size a) (size b) + 1
          | Inr (p, a) \<Rightarrow> 2 * size a)")
  apply (auto dest!: frozenset_subset zip_both)
  apply (auto intro: eq_hash_term1 eq_hash_term2 eq_hash_term3 eq_hash_term4)
  done

subsection \<open>Errors as values\<close>

definition ebind :: "error + 'a \<Rightarrow> ('a \<Rightarrow> error + 'b) \<Rightarrow> error + 'b" where
  "ebind m f = (case m of Inl e \<Rightarrow> Inl e | Inr x \<Rightarrow> f x)"

lemma ebind_cong [fundef_cong]:
  "m = m' \<Longrightarrow> (\<And>x. m' = Inr x \<Longrightarrow> f x = f' x) \<Longrightarrow> ebind m f = ebind m' f'"
  by (auto simp: ebind_def split: sum.splits)

lemma ebind_simps [simp]:
  "ebind (Inl e) f = Inl e"
  "ebind (Inr x) f = f x"
  by (simp_all add: ebind_def)

text \<open>A list comprehension whose elements may raise: the first error ends it.\<close>

fun comprehension :: "(error + 'a) list \<Rightarrow> error + 'a list" where
  "comprehension [] = Inr []"
| "comprehension (r # rs) =
     ebind r (\<lambda>x. ebind (comprehension rs) (\<lambda>xs. Inr (x # xs)))"

text \<open>\<^verbatim>\<open>all(...)\<close> and \<^verbatim>\<open>any(...)\<close> over a generator stop at the first deciding element.\<close>

fun py_all :: "(error + bool) list \<Rightarrow> error + bool" where
  "py_all [] = Inr True"
| "py_all (r # rs) = ebind r (\<lambda>b. if b then py_all rs else Inr False)"

fun py_any :: "(error + bool) list \<Rightarrow> error + bool" where
  "py_any [] = Inr False"
| "py_any (r # rs) = ebind r (\<lambda>b. if b then Inr True else py_any rs)"

section \<open>Propositional formulas and interpretations\<close>

text \<open>
  Modelled from the spec: \<^verbatim>\<open>flloat.syntax.pl\<close>, \<^verbatim>\<open>flloat.semantics.pl\<close> and
  \<^verbatim>\<open>flloat.base.Symbols\<close> are not among the sources. Following sections 3 and 4.A/4.B of
  the specification, an interpretation is the set of the symbols that are true,
  \<^verbatim>\<open>PLFalseInterpretation\<close> makes every symbol false, \<^verbatim>\<open>PLAnd\<close> and \<^verbatim>\<open>PLOr\<close> are n-ary,
  flattened and duplicate-free (commutative binary operators of \<^verbatim>\<open>Formula.py\<close>), and
  \<^verbatim>\<open>truth\<close> is the standard Boolean evaluation. \<^verbatim>\<open>LAST\<close> is the reserved symbol
  \<^verbatim>\<open>Symbol(Symbols.LTLf_LAST.value)\<close>.
\<close>

type_synonym PLInterpretation = "symbol set"

definition PLFalseInterpretation :: PLInterpretation where
  "PLFalseInterpretation = {}"

definition LTLf_LAST :: symbol where
  "LTLf_LAST = ''last''"

definition PLAtomic :: "symbol \<Rightarrow> formula" where
  "PLAtomic s = AtomicFormula PLAtomicT s"

definition PLTrue :: formula where
  "PLTrue = AtomicFormula PLTrueT ''true''"

definition PLFalse :: formula where
  "PLFalse = AtomicFormula PLFalseT ''false''"

definition PLNot :: "formula \<Rightarrow> formula" where
  "PLNot f = UnaryOperator PLNotT f"

definition PLAnd :: "formula list \<Rightarrow> error + formula" where
  "PLAnd formulas = CommutativeBinaryOperator_init PLAndT formulas"

definition PLOr :: "formula list \<Rightarrow> error + formula" where
  "PLOr formulas = CommutativeBinaryOperator_init PLOrT formulas"

text \<open>
  An LTLf formula met inside a propositional formula has a \<^verbatim>\<open>truth\<close> that wants a trace
  and a position; called with one interpretation it raises \<^verbatim>\<open>TypeError\<close>.
\<close>

fun PL_truth :: "formula \<Rightarrow> PLInterpretation \<Rightarrow> error + bool" where
  "PL_truth (AtomicFormula c s) i =
     Inr (case c of PLAtomicT \<Rightarrow> s \<in> i | PLTrueT \<Rightarrow> True | PLFalseT \<Rightarrow> False)"
| "PL_truth (UnaryOperator c f) i =
     (if c = PLNotT then ebind (PL_truth f i) (\<lambda>b. Inr (\<not> b)) else Inl TypeError)"
| "PL_truth (CommutativeBinaryOperator c formulas) i =
     (if c = PLAndT then py_all (map (\<lambda>f. PL_truth f i) formulas)
      else if c = PLOrT then py_any (map (\<lambda>f. PL_truth f i) formulas)
      else Inl TypeError)"
| "PL_truth _ i = Inl TypeError"

section \<open>LTLf formulas\<close>

definition LTLfAtomic :: "formula \<Rightarrow> error + formula" where
  "LTLfAtomic a =
     (case a of
        AtomicFormula _ _ \<Rightarrow> Inr (LTLfAtomicFormula LTLfAtomicT a)
      | LTLfAtomicFormula _ _ \<Rightarrow> Inr (LTLfAtomicFormula LTLfAtomicT a)
      | _ \<Rightarrow> Inl AttributeError)"

definition LTLfTrue :: formula where
  "LTLfTrue = LTLfAtomicFormula LTLfTrueT PLTrue"

definition LTLfFalse :: formula where
  "LTLfFalse = LTLfAtomicFormula LTLfFalseT PLFalse"

definition LTLfNot :: "formula \<Rightarrow> formula" where
  "LTLfNot f = UnaryOperator LTLfNotT f"

definition LTLfNext :: "formula \<Rightarrow> formula" where
  "LTLfNext f = UnaryOperator LTLfNextT f"

definition LTLfWeakNext :: "formula \<Rightarrow> formula" where
  "LTLfWeakNext f = UnaryOperator LTLfWeakNextT f"

definition LTLfEventually :: "formula \<Rightarrow> formula" where
  "LTLfEventually f = UnaryOperator LTLfEventuallyT f"

definition LTLfAlways :: "formula \<Rightarrow> formula" where
  "LTLfAlways f = UnaryOperator LTLfAlwaysT f"

definition LTLfAnd :: "formula list \<Rightarrow> error + formula" where
  "LTLfAnd formulas = CommutativeBinaryOperator_init LTLfAndT formulas"

definition LTLfOr :: "formula list \<Rightarrow> error + formula" where
  "LTLfOr formulas = CommutativeBinaryOperator_init LTLfOrT formulas"

definition LTLfEquivalence :: "formula list \<Rightarrow> error + formula" where
  "LTLfEquivalence formulas = CommutativeBinaryOperator_init LTLfEquivalenceT formulas"

definition LTLfImplies :: "formula list \<Rightarrow> error + formula" where
  "LTLfImplies formulas = BinaryOperator_init LTLfImpliesT formulas"

definition LTLfUntil :: "formula list \<Rightarrow> error + formula" where
  "LTLfUntil formulas = BinaryOperator_init LTLfUntilT formulas"

definition LTLfRelease :: "formula list \<Rightarrow> error + formula" where
  "LTLfRelease formulas = BinaryOperator_init LTLfReleaseT formulas"

text \<open>\<^verbatim>\<open>xs[0]\<close> and \<^verbatim>\<open>xs[1]\<close> raise \<^verbatim>\<open>IndexError\<close> on a tuple that is too short.\<close>

definition item0 :: "'a list \<Rightarrow> error + 'a" where
  "item0 xs = (case xs of [] \<Rightarrow> Inl IndexError | x # _ \<Rightarrow> Inr x)"

definition item1 :: "'a list \<Rightarrow> error + 'a" where
  "item1 xs = (case xs of x # y # _ \<Rightarrow> Inr y | _ \<Rightarrow> Inl IndexError)"

subsection \<open>A weight that every conversion and every construction lowers\<close>

definition bk :: "binary_cls \<Rightarrow> nat" where
  "bk c = (case c of LTLfUntilT \<Rightarrow> 1 | LTLfReleaseT \<Rightarrow> 3 | LTLfImpliesT \<Rightarrow> 1)"

definition bs :: "binary_cls \<Rightarrow> nat" where
  "bs c = (case c of LTLfUntilT \<Rightarrow> 0 | LTLfReleaseT \<Rightarrow> 1 | LTLfImpliesT \<Rightarrow> 3)"

definition ck :: "comm_cls \<Rightarrow> nat" where
  "ck c = (case c of LTLfEquivalenceT \<Rightarrow> 4 | _ \<Rightarrow> 1)"

definition cm :: "comm_cls \<Rightarrow> nat" where
  "cm c = (case c of LTLfEquivalenceT \<Rightarrow> 2 | _ \<Rightarrow> 1)"

definition cs :: "comm_cls \<Rightarrow> nat" where
  "cs c = (case c of LTLfEquivalenceT \<Rightarrow> 1 | _ \<Rightarrow> 0)"

definition uk :: "unary_cls \<Rightarrow> nat" where
  "uk c = (case c of LTLfWeakNextT \<Rightarrow> 4 | LTLfEventuallyT \<Rightarrow> 3 | LTLfAlwaysT \<Rightarrow> 6 | _ \<Rightarrow> 1)"

fun wt :: "formula \<Rightarrow> nat" where
  "wt (AtomicFormula c s) = 1"
| "wt (LTLfAtomicFormula c a) = 1"
| "wt (UnaryOperator c f) = uk c + wt f"
| "wt (BinaryOperator c fs) = bk c + sum_list (map (\<lambda>f. wt f + bs c) fs)"
| "wt (CommutativeBinaryOperator c fs) = ck c + sum_list (map (\<lambda>f. cm c * wt f + cs c) fs)"

lemma wt_pos: "0 < wt f"
  by (cases f) (auto simp: uk_def bk_def ck_def split: unary_cls.splits binary_cls.splits comm_cls.splits)

lemma sum_list_concat_le:
  fixes w :: "'a \<Rightarrow> nat"
  assumes "\<And>x. x \<in> set xs \<Longrightarrow> sum_list (map w (g x)) \<le> w x"
  shows "sum_list (map w (concat (map g xs))) \<le> sum_list (map w xs)"
  using assms by (induction xs) (auto intro: add_mono)

lemma wt_popup_binary:
  "x = BinaryOperator c fs \<Longrightarrow>
   sum_list (map (\<lambda>f. wt f + bs c) (u_popup x)) \<le> sum_list (map (\<lambda>f. wt f + bs c) fs)"
proof (induction x arbitrary: c fs rule: u_popup.induct)
  case (1 c' formulas)
  then have [simp]: "c' = c" "formulas = fs" by auto
  show ?case
    unfolding 1(2) u_popup.simps
  proof (rule sum_list_concat_le)
    fix ch assume ch: "ch \<in> set fs"
    show "sum_list (map (\<lambda>f. wt f + bs c)
            (case ch of BinaryOperator c' x \<Rightarrow> if c' = c then u_popup ch else [ch] | _ \<Rightarrow> [ch]))
          \<le> wt ch + bs c"
    proof (cases ch)
      case (BinaryOperator c2 gs)
      show ?thesis
      proof (cases "c2 = c")
        case True
        have "sum_list (map (\<lambda>f. wt f + bs c) (u_popup ch)) \<le> sum_list (map (\<lambda>f. wt f + bs c) gs)"
          using "1.IH"[of ch c2 gs c gs] ch BinaryOperator True by simp
        then show ?thesis using BinaryOperator True by simp
      next
        case False
        then show ?thesis using BinaryOperator by simp
      qed
    qed simp_all
  qed
qed simp_all

lemma wt_popup_comm:
  "x = CommutativeBinaryOperator c fs \<Longrightarrow>
   sum_list (map (\<lambda>f. cm c * wt f + cs c) (u_popup x)) \<le> sum_list (map (\<lambda>f. cm c * wt f + cs c) fs)"
proof (induction x arbitrary: c fs rule: u_popup.induct)
  case (2 c' formulas)
  then have [simp]: "c' = c" "formulas = fs" by auto
  have cm1: "1 \<le> cm c" by (simp add: cm_def split: comm_cls.splits)
  show ?case
    unfolding 2(2) u_popup.simps
  proof (rule sum_list_concat_le)
    fix ch assume ch: "ch \<in> set fs"
    show "sum_list (map (\<lambda>f. cm c * wt f + cs c)
            (case ch of CommutativeBinaryOperator c' x \<Rightarrow> if c' = c then u_popup ch else [ch] | _ \<Rightarrow> [ch]))
          \<le> cm c * wt ch + cs c"
    proof (cases ch)
      case (CommutativeBinaryOperator c2 gs)
      show ?thesis
      proof (cases "c2 = c")
        case True
        have "sum_list (map (\<lambda>f. cm c * wt f + cs c) (u_popup ch))
              \<le> sum_list (map (\<lambda>f. cm c * wt f + cs c) gs)"
          using "2.IH"[of ch c2 gs c gs] ch CommutativeBinaryOperator True by simp
        also have "\<dots> \<le> wt ch" using CommutativeBinaryOperator True by simp
        also have "\<dots> \<le> cm c * wt ch" using cm1 by simp
        finally show ?thesis using CommutativeBinaryOperator True by simp
      next
        case False
        then show ?thesis using CommutativeBinaryOperator by simp
      qed
    qed simp_all
  qed
qed simp_all

lemma wt_BinaryOperator_init:
  "BinaryOperator_init c fs = Inr g \<Longrightarrow> wt g \<le> wt (BinaryOperator c fs)"
  using wt_popup_binary[of "BinaryOperator c fs" c fs]
  by (auto simp: BinaryOperator_init_def split: if_splits)

lemma wt_CommutativeBinaryOperator_init:
  "CommutativeBinaryOperator_init c fs = Inr g \<Longrightarrow> wt g \<le> wt (CommutativeBinaryOperator c fs)"
  using wt_popup_comm[of "CommutativeBinaryOperator c fs" c fs]
  by (auto simp: CommutativeBinaryOperator_init_def split: if_splits)

subsection \<open>Conversions\<close>

definition LTLfWeakNext_convert :: "formula \<Rightarrow> formula" where
  "LTLfWeakNext_convert f = LTLfNot (LTLfNext (LTLfNot f))"

definition LTLfEventually_convert :: "formula \<Rightarrow> error + formula" where
  "LTLfEventually_convert f = LTLfUntil [LTLfTrue, f]"

definition LTLfAlways_convert :: "formula \<Rightarrow> formula" where
  "LTLfAlways_convert f = LTLfNot (LTLfEventually (LTLfNot f))"

definition LTLfRelease_convert :: "formula list \<Rightarrow> error + formula" where
  "LTLfRelease_convert formulas =
     ebind (LTLfUntil (map LTLfNot formulas)) (\<lambda>u. Inr (LTLfNot u))"

text \<open>
  Modelled from the spec: \<^verbatim>\<open>flloat.base.convertible\<close>, which gives \<^verbatim>\<open>LTLfImplies\<close> and
  \<^verbatim>\<open>LTLfEquivalence\<close> their \<^verbatim>\<open>_convert\<close>, is not among the sources. Section 3 says that
  they desugar to And/Or/Not and that the n-ary operators are right-associative:
  an implication is \<open>Or [Not \<phi>\<^sub>1, rest]\<close>, the rest being the implication of the
  remaining children when more than one remains; an equivalence holds when all its
  children hold or none does.
\<close>

definition LTLfImplies_convert :: "formula list \<Rightarrow> error + formula" where
  "LTLfImplies_convert formulas =
     ebind (item0 formulas) (\<lambda>f1.
     ebind (if length formulas > 2 then LTLfImplies (tl formulas) else item1 formulas) (\<lambda>f2.
     LTLfOr [LTLfNot f1, f2]))"

definition LTLfEquivalence_convert :: "formula list \<Rightarrow> error + formula" where
  "LTLfEquivalence_convert formulas =
     ebind (LTLfAnd formulas) (\<lambda>pos.
     ebind (LTLfAnd (map LTLfNot formulas)) (\<lambda>neg.
     LTLfOr [pos, neg]))"

subsection \<open>The delta function\<close>

text \<open>
  \<^verbatim>\<open>LTLfNext(self)._delta(i, epsilon)\<close> and \<^verbatim>\<open>LTLfWeakNext(self)._delta(i, epsilon)\<close>
  always run the method of \<^verbatim>\<open>LTLfNext\<close> and of \<^verbatim>\<open>LTLfWeakNext\<close>; these two bodies are
  \<open>LTLfNext_delta\<close> and \<open>LTLfWeakNext_delta\<close>, and \<open>LTLfAtomic_delta\<close> is the body of
  \<^verbatim>\<open>LTLfAtomic._delta\<close>. A propositional object has no \<^verbatim>\<open>_delta\<close>. The \<^verbatim>\<open>_delta\<close> of
  \<^verbatim>\<open>LTLfImplies\<close> and \<^verbatim>\<open>LTLfEquivalence\<close> is the one of their conversion (the classes
  \<^verbatim>\<open>ImpliesDeltaConvertible\<close> and \<^verbatim>\<open>EquivalenceDeltaConvertible\<close>, modelled from the
  spec as above).
\<close>

definition LTLfAtomic_delta :: "formula \<Rightarrow> PLInterpretation \<Rightarrow> bool \<Rightarrow> error + formula" where
  "LTLfAtomic_delta a i epsilon =
     (if epsilon then Inr PLFalse
      else ebind (PL_truth a i) (\<lambda>t. Inr (if t then PLTrue else PLFalse)))"

definition LTLfNext_delta :: "formula \<Rightarrow> PLInterpretation \<Rightarrow> bool \<Rightarrow> formula" where
  "LTLfNext_delta f i epsilon =
     (if epsilon then PLFalse
      else (if \<not> LTLf_LAST \<in> i then f else PLFalse))"

definition LTLfWeakNext_delta :: "formula \<Rightarrow> PLInterpretation \<Rightarrow> bool \<Rightarrow> formula" where
  "LTLfWeakNext_delta f i epsilon =
     (if epsilon then PLTrue
      else (if \<not> LTLf_LAST \<in> i then f else PLTrue))"

lemma wt_member: "f \<in> set fs \<Longrightarrow> 0 < m \<Longrightarrow> wt f \<le> sum_list (map (\<lambda>f. m * wt f + k) fs)"
proof (induction fs)
  case Nil
  then show ?case by simp
next
  case (Cons g gs)
  have "wt f \<le> m * wt f" using Cons.prems by simp
  then show ?case using Cons by (auto simp: trans_le_add1 trans_le_add2)
qed

lemma wt_child_unary: "wt f < wt (UnaryOperator c f)"
  by (simp add: uk_def split: unary_cls.splits)

lemma wt_child_binary: "f \<in> set fs \<Longrightarrow> wt f < wt (BinaryOperator c fs)"
  using wt_member[of f fs 1 "bs c"] by (cases c) (simp_all add: bk_def)

lemma wt_child_comm: "f \<in> set fs \<Longrightarrow> wt f < wt (CommutativeBinaryOperator c fs)"
  using wt_member[of f fs "cm c" "cs c"]
  by (cases c) (simp_all add: ck_def cm_def)

lemma item0_member: "item0 xs = Inr x \<Longrightarrow> x \<in> set xs"
  by (auto simp: item0_def split: list.splits)

lemma item1_member: "item1 xs = Inr x \<Longrightarrow> x \<in> set xs"
  by (auto simp: item1_def split: list.splits)

lemma wt_rest_binary:
  assumes "(if 2 < length fs then BinaryOperator_init c (tl fs) else item1 fs) = Inr g"
  shows "wt g < wt (BinaryOperator c fs)"
proof (cases "2 < length fs")
  case True
  then obtain f1 rest where fs: "fs = f1 # rest" by (cases fs) auto
  have "wt g \<le> wt (BinaryOperator c rest)"
    using assms True fs wt_BinaryOperator_init[of c rest g] by simp
  also have "\<dots> < wt (BinaryOperator c fs)"
    using wt_pos[of f1] by (simp add: fs)
  finally show ?thesis .
next
  case False
  then show ?thesis using assms wt_child_binary[of g fs c] item1_member[of fs g] by simp
qed

lemma wt_rest_LTLfUntil:
  "(if 2 < length fs then LTLfUntil (tl fs) else item1 fs) = Inr g \<Longrightarrow>
   wt g < wt (BinaryOperator LTLfUntilT fs)"
  using wt_rest_binary[of fs LTLfUntilT g] unfolding LTLfUntil_def by blast

lemma wt_rest_LTLfRelease:
  "(if 2 < length fs then LTLfRelease (tl fs) else item1 fs) = Inr g \<Longrightarrow>
   wt g < wt (BinaryOperator LTLfReleaseT fs)"
  using wt_rest_binary[of fs LTLfReleaseT g] unfolding LTLfRelease_def by blast

lemma wt_LTLfImplies_convert:
  assumes "LTLfImplies_convert fs = Inr g"
  shows "wt g < wt (BinaryOperator LTLfImpliesT fs)"
proof -
  from assms obtain f1 f2 where f1: "item0 fs = Inr f1"
    and f2: "(if 2 < length fs then BinaryOperator_init LTLfImpliesT (tl fs) else item1 fs) = Inr f2"
    and g: "LTLfOr [LTLfNot f1, f2] = Inr g"
    unfolding LTLfImplies_convert_def LTLfImplies_def ebind_def
    by (auto split: sum.splits)
  obtain rest where fs: "fs = f1 # rest" using f1 by (auto simp: item0_def split: list.splits)
  have w2: "wt f2 \<le> 1 + sum_list (map (\<lambda>f. wt f + 3) rest)"
  proof (cases "2 < length fs")
    case True
    then show ?thesis
      using f2 fs wt_BinaryOperator_init[of LTLfImpliesT rest f2] by (simp add: bk_def bs_def)
  next
    case False
    then have "f2 \<in> set rest" using f2 fs by (auto simp: item1_def split: list.splits)
    then show ?thesis using wt_member[of f2 rest 1 3] by simp
  qed
  have "wt g \<le> wt (CommutativeBinaryOperator LTLfOrT [LTLfNot f1, f2])"
    using g wt_CommutativeBinaryOperator_init[of LTLfOrT "[LTLfNot f1, f2]" g]
    by (simp add: LTLfOr_def)
  also have "\<dots> = 2 + wt f1 + wt f2"
    by (simp add: ck_def cm_def cs_def uk_def LTLfNot_def)
  also have "\<dots> < wt (BinaryOperator LTLfImpliesT fs)"
    using w2 by (simp add: fs bk_def bs_def)
  finally show ?thesis .
qed

lemma sum_list_map_LTLfNot:
  "sum_list (map (\<lambda>f. wt f) (map LTLfNot fs)) = sum_list (map (\<lambda>f. wt f + 1) fs)"
  by (induction fs) (auto simp: LTLfNot_def uk_def)

lemma wt_LTLfEquivalence_convert:
  assumes "LTLfEquivalence_convert fs = Inr g"
  shows "wt g < wt (CommutativeBinaryOperator LTLfEquivalenceT fs)"
proof -
  from assms obtain pos neg where pos: "LTLfAnd fs = Inr pos"
    and neg: "LTLfAnd (map LTLfNot fs) = Inr neg"
    and g: "LTLfOr [pos, neg] = Inr g"
    by (auto simp: LTLfEquivalence_convert_def ebind_def split: sum.splits)
  have wp: "wt pos \<le> 1 + sum_list (map wt fs)"
    using pos wt_CommutativeBinaryOperator_init[of LTLfAndT fs pos]
    by (simp add: LTLfAnd_def ck_def cm_def cs_def)
  have wn: "wt neg \<le> 1 + sum_list (map (\<lambda>f. wt f + 1) fs)"
    using neg wt_CommutativeBinaryOperator_init[of LTLfAndT "map LTLfNot fs" neg]
      sum_list_map_LTLfNot[of fs]
    by (simp add: LTLfAnd_def ck_def cm_def cs_def comp_def)
  have "wt g \<le> wt (CommutativeBinaryOperator LTLfOrT [pos, neg])"
    using g wt_CommutativeBinaryOperator_init[of LTLfOrT "[pos, neg]" g]
    by (simp add: LTLfOr_def)
  also have "\<dots> = 1 + wt pos + wt neg"
    by (simp add: ck_def cm_def cs_def)
  also have "\<dots> \<le> 3 + sum_list (map wt fs) + sum_list (map (\<lambda>f. wt f + 1) fs)"
    using wp wn by simp
  also have "\<dots> = 3 + sum_list (map (\<lambda>f. 2 * wt f + 1) fs)"
    by (induction fs) auto
  also have "\<dots> < wt (CommutativeBinaryOperator LTLfEquivalenceT fs)"
    by (simp add: ck_def cm_def cs_def)
  finally show ?thesis .
qed

function u_delta :: "python \<Rightarrow> formula \<Rightarrow> PLInterpretation \<Rightarrow> bool \<Rightarrow> error + formula" where
  "u_delta p (AtomicFormula c s) i epsilon = Inl AttributeError"
| "u_delta p (LTLfAtomicFormula c a) i epsilon = LTLfAtomic_delta a i epsilon"
| "u_delta p (UnaryOperator c f) i epsilon =
     (case c of
        PLNotT \<Rightarrow> Inl AttributeError
      | LTLfNotT \<Rightarrow>
          (case f of
             LTLfAtomicFormula _ _ \<Rightarrow>
               ebind (u_delta p f i epsilon) (\<lambda>d.
               Inr (if eq p d PLFalse then PLTrue else PLFalse))
           | _ \<Rightarrow> Inl Exception)
      | LTLfNextT \<Rightarrow> Inr (LTLfNext_delta f i epsilon)
      | LTLfWeakNextT \<Rightarrow> Inr (LTLfWeakNext_delta f i epsilon)
      | LTLfEventuallyT \<Rightarrow>
          ebind (u_delta p f i epsilon) (\<lambda>d.
          PLOr [d, LTLfNext_delta (UnaryOperator c f) i epsilon])
      | LTLfAlwaysT \<Rightarrow>
          ebind (u_delta p f i epsilon) (\<lambda>d.
          PLAnd [d, LTLfWeakNext_delta (UnaryOperator c f) i epsilon]))"
| "u_delta p (BinaryOperator c formulas) i epsilon =
     (case c of
        LTLfImpliesT \<Rightarrow>
          ebind (LTLfImplies_convert formulas) (\<lambda>f. u_delta p f i epsilon)
      | LTLfUntilT \<Rightarrow>
          ebind (item0 formulas) (\<lambda>f1.
          ebind (if length formulas > 2 then LTLfUntil (tl formulas) else item1 formulas) (\<lambda>f2.
          ebind (u_delta p f2 i epsilon) (\<lambda>d2.
          ebind (u_delta p f1 i epsilon) (\<lambda>d1.
          ebind (PLAnd [d1, LTLfNext_delta (BinaryOperator c formulas) i epsilon]) (\<lambda>a.
          PLOr [d2, a])))))
      | LTLfReleaseT \<Rightarrow>
          ebind (item0 formulas) (\<lambda>f1.
          ebind (if length formulas > 2 then LTLfRelease (tl formulas) else item1 formulas) (\<lambda>f2.
          ebind (u_delta p f2 i epsilon) (\<lambda>d2.
          ebind (u_delta p f1 i epsilon) (\<lambda>d1.
          ebind (PLOr [d1, LTLfNext_delta (BinaryOperator c formulas) i epsilon]) (\<lambda>a.
          PLAnd [d2, a]))))))"
| "u_delta p (CommutativeBinaryOperator c formulas) i epsilon =
     (case c of
        PLAndT \<Rightarrow> Inl AttributeError
      | PLOrT \<Rightarrow> Inl AttributeError
      | LTLfAndT \<Rightarrow>
          ebind (comprehension (map (\<lambda>f. u_delta p f i epsilon) formulas)) PLAnd
      | LTLfOrT \<Rightarrow>
          ebind (comprehension (map (\<lambda>f. u_delta p f i epsilon) formulas)) PLOr
      | LTLfEquivalenceT \<Rightarrow>
          ebind (LTLfEquivalence_convert formulas) (\<lambda>f. u_delta p f i epsilon))"
  by pat_completeness auto
termination
  apply (relation "measure (\<lambda>(p, f, i, e). wt f)")
  apply (auto simp del: wt.simps dest!: item0_member
      simp: wt_child_unary wt_child_binary wt_child_comm
        wt_rest_LTLfUntil wt_rest_LTLfRelease wt_LTLfImplies_convert wt_LTLfEquivalence_convert)
  done

subsection \<open>Negation normal form\<close>

text \<open>
  Modelled from the spec: \<^verbatim>\<open>flloat.base.nnf\<close> (\<^verbatim>\<open>NotNNF\<close>, \<^verbatim>\<open>DualUnaryOperatorNNF\<close>,
  \<^verbatim>\<open>DualBinaryOperatorNNF\<close>) is not among the sources; only \<^verbatim>\<open>LTLfAtomic.to_nnf\<close>
  (return \<^verbatim>\<open>self\<close>) and \<^verbatim>\<open>LTLfUntil.to_nnf\<close> (\<^verbatim>\<open>LTLfUntil\<close> of the children's normal
  forms) are. The other cases follow the rewrite rules of section 4.D: a negated atom is
  terminal, a double negation is dropped, a negation moves through And/Or,
  Next/WeakNext and Until/Release to the dual operator over the negated children, and
  Implies, Equivalence, Eventually and Always are expanded to their base form first. The
  rules speak of LTLf nodes only; on a propositional node the function reports the
  missing method.
\<close>

lemma wt_LTLfNot [simp]: "wt (LTLfNot f) = Suc (wt f)"
  by (simp add: LTLfNot_def uk_def)

lemma wt_Not_less [simp]: "wt (UnaryOperator LTLfNotT f) < wt (UnaryOperator LTLfNotT g) \<longleftrightarrow> wt f < wt g"
  by (simp add: uk_def)

lemma wt_Suc_Not [simp]: "Suc (wt f) < wt (UnaryOperator LTLfNotT g) \<longleftrightarrow> wt f < wt g"
  by (simp add: uk_def)

lemma wt_Not_Not: "wt f < wt (UnaryOperator LTLfNotT (UnaryOperator LTLfNotT f))"
  by (simp add: uk_def)

lemma wt_LTLfWeakNext_convert: "wt (LTLfWeakNext_convert f) < wt (UnaryOperator LTLfWeakNextT f)"
  by (simp add: LTLfWeakNext_convert_def LTLfNot_def LTLfNext_def uk_def)

lemma wt_LTLfAlways_convert: "wt (LTLfAlways_convert f) < wt (UnaryOperator LTLfAlwaysT f)"
  by (simp add: LTLfAlways_convert_def LTLfNot_def LTLfEventually_def uk_def)

lemma wt_LTLfEventually_convert:
  "LTLfEventually_convert f = Inr g \<Longrightarrow> wt g < wt (UnaryOperator LTLfEventuallyT f)"
  using wt_BinaryOperator_init[of LTLfUntilT "[LTLfTrue, f]" g]
  by (simp add: LTLfEventually_convert_def LTLfUntil_def LTLfTrue_def uk_def bk_def bs_def)

lemma wt_LTLfRelease_convert:
  "LTLfRelease_convert fs = Inr g \<Longrightarrow> wt g < wt (BinaryOperator LTLfReleaseT fs)"
proof -
  assume "LTLfRelease_convert fs = Inr g"
  then obtain u where u: "LTLfUntil (map LTLfNot fs) = Inr u" and g: "g = LTLfNot u"
    by (auto simp: LTLfRelease_convert_def ebind_def split: sum.splits)
  have "wt u \<le> 1 + sum_list (map (\<lambda>f. wt f + 1) fs)"
    using u wt_BinaryOperator_init[of LTLfUntilT "map LTLfNot fs" u]
    by (simp add: LTLfUntil_def bk_def bs_def comp_def)
  then show ?thesis by (simp add: g bk_def bs_def)
qed

function to_nnf :: "formula \<Rightarrow> error + formula" where
  "to_nnf (AtomicFormula c s) = Inl AttributeError"
| "to_nnf (LTLfAtomicFormula c a) = Inr (LTLfAtomicFormula c a)"
| "to_nnf (UnaryOperator c f) =
     (case c of
        PLNotT \<Rightarrow> Inl AttributeError
      | LTLfNotT \<Rightarrow>
          (case f of
             AtomicFormula _ _ \<Rightarrow> Inl AttributeError
           | LTLfAtomicFormula _ _ \<Rightarrow> Inr (UnaryOperator c f)
           | UnaryOperator c' g \<Rightarrow>
               (case c' of
                  PLNotT \<Rightarrow> Inl AttributeError
                | LTLfNotT \<Rightarrow> to_nnf g
                | LTLfNextT \<Rightarrow> ebind (to_nnf (LTLfNot g)) (\<lambda>g'. Inr (LTLfWeakNext g'))
                | LTLfWeakNextT \<Rightarrow> ebind (to_nnf (LTLfNot g)) (\<lambda>g'. Inr (LTLfNext g'))
                | LTLfEventuallyT \<Rightarrow>
                    ebind (LTLfEventually_convert g) (\<lambda>e. to_nnf (LTLfNot e))
                | LTLfAlwaysT \<Rightarrow> to_nnf (LTLfNot (LTLfAlways_convert g)))
           | BinaryOperator c' gs \<Rightarrow>
               (case c' of
                  LTLfImpliesT \<Rightarrow> ebind (LTLfImplies_convert gs) (\<lambda>e. to_nnf (LTLfNot e))
                | LTLfUntilT \<Rightarrow>
                    ebind (comprehension (map (\<lambda>g. to_nnf (LTLfNot g)) gs)) LTLfRelease
                | LTLfReleaseT \<Rightarrow>
                    ebind (comprehension (map (\<lambda>g. to_nnf (LTLfNot g)) gs)) LTLfUntil)
           | CommutativeBinaryOperator c' gs \<Rightarrow>
               (case c' of
                  PLAndT \<Rightarrow> Inl AttributeError
                | PLOrT \<Rightarrow> Inl AttributeError
                | LTLfAndT \<Rightarrow>
                    ebind (comprehension (map (\<lambda>g. to_nnf (LTLfNot g)) gs)) LTLfOr
                | LTLfOrT \<Rightarrow>
                    ebind (comprehension (map (\<lambda>g. to_nnf (LTLfNot g)) gs)) LTLfAnd
                | LTLfEquivalenceT \<Rightarrow>
                    ebind (LTLfEquivalence_convert gs) (\<lambda>e. to_nnf (LTLfNot e))))
      | LTLfNextT \<Rightarrow> ebind (to_nnf f) (\<lambda>g. Inr (LTLfNext g))
      | LTLfWeakNextT \<Rightarrow> ebind (to_nnf f) (\<lambda>g. Inr (LTLfWeakNext g))
      | LTLfEventuallyT \<Rightarrow> ebind (LTLfEventually_convert f) to_nnf
      | LTLfAlwaysT \<Rightarrow> to_nnf (LTLfAlways_convert f))"
| "to_nnf (BinaryOperator c formulas) =
     (case c of
        LTLfImpliesT \<Rightarrow> ebind (LTLfImplies_convert formulas) to_nnf
      | LTLfUntilT \<Rightarrow> ebind (comprehension (map to_nnf formulas)) LTLfUntil
      | LTLfReleaseT \<Rightarrow> ebind (comprehension (map to_nnf formulas)) LTLfRelease)"
| "to_nnf (CommutativeBinaryOperator c formulas) =
     (case c of
        PLAndT \<Rightarrow> Inl AttributeError
      | PLOrT \<Rightarrow> Inl AttributeError
      | LTLfAndT \<Rightarrow> ebind (comprehension (map to_nnf formulas)) LTLfAnd
      | LTLfOrT \<Rightarrow> ebind (comprehension (map to_nnf formulas)) LTLfOr
      | LTLfEquivalenceT \<Rightarrow> ebind (LTLfEquivalence_convert formulas) to_nnf)"
  by pat_completeness auto
termination
  apply (relation "measure wt")
  apply (auto simp del: wt.simps
      simp: wt_child_unary wt_child_binary wt_child_comm wt_LTLfAlways_convert wt_Not_Not
        wt_LTLfEventually_convert wt_LTLfImplies_convert wt_LTLfEquivalence_convert)
  done

subsection \<open>The public delta\<close>

definition delta :: "python \<Rightarrow> formula \<Rightarrow> PLInterpretation \<Rightarrow> bool \<Rightarrow> error + formula" where
  "delta p self i epsilon =
     ebind (to_nnf self) (\<lambda>f.
     ebind (u_delta p f i epsilon) (\<lambda>d.
     if epsilon
     then ebind (PL_truth d PLFalseInterpretation) (\<lambda>t. Inr (if t then PLTrue else PLFalse))
     else Inr d))"

subsection \<open>Truth on a finite trace\<close>

text \<open>
  Modelled from the spec: \<^verbatim>\<open>flloat.semantics.ldlf.FiniteTrace\<close>, \<^verbatim>\<open>flloat.base.truths\<close>
  and \<^verbatim>\<open>flloat.base.convertible\<close> are not among the sources. A trace is a finite
  sequence of interpretations, \<^verbatim>\<open>last()\<close> is the index of its last position and
  \<^verbatim>\<open>get(pos)\<close> the interpretation at a position; \<^verbatim>\<open>NotTruth\<close>, \<^verbatim>\<open>AndTruth\<close> and \<^verbatim>\<open>OrTruth\<close>
  are the standard Boolean evaluation, and a convertible formula is true when its
  conversion is. The cases of \<^verbatim>\<open>LTLfAtomic\<close>, \<^verbatim>\<open>LTLfNext\<close>, \<^verbatim>\<open>LTLfWeakNext\<close> and
  \<^verbatim>\<open>LTLfUntil\<close> are those of \<^verbatim>\<open>ltlf.py\<close>.
\<close>

type_synonym FiniteTrace = "PLInterpretation list"

definition FiniteTrace_last :: "FiniteTrace \<Rightarrow> int" where
  "FiniteTrace_last i = int (length i) - 1"

definition FiniteTrace_get :: "FiniteTrace \<Rightarrow> int \<Rightarrow> error + PLInterpretation" where
  "FiniteTrace_get i pos =
     (if 0 \<le> pos \<and> pos < int (length i) then Inr (i ! nat pos) else Inl IndexError)"

function truth :: "formula \<Rightarrow> FiniteTrace \<Rightarrow> int \<Rightarrow> error + bool" where
  "truth (AtomicFormula c s) i pos = Inl TypeError"
| "truth (LTLfAtomicFormula c a) i pos = ebind (FiniteTrace_get i pos) (PL_truth a)"
| "truth (UnaryOperator c f) i pos =
     (case c of
        PLNotT \<Rightarrow> Inl TypeError
      | LTLfNotT \<Rightarrow> ebind (truth f i pos) (\<lambda>b. Inr (\<not> b))
      | LTLfNextT \<Rightarrow> (if pos < FiniteTrace_last i then truth f i (pos + 1) else Inr False)
      | LTLfWeakNextT \<Rightarrow> truth (LTLfWeakNext_convert f) i pos
      | LTLfEventuallyT \<Rightarrow> ebind (LTLfEventually_convert f) (\<lambda>g. truth g i pos)
      | LTLfAlwaysT \<Rightarrow> truth (LTLfAlways_convert f) i pos)"
| "truth (BinaryOperator c formulas) i pos =
     (case c of
        LTLfImpliesT \<Rightarrow> ebind (LTLfImplies_convert formulas) (\<lambda>g. truth g i pos)
      | LTLfUntilT \<Rightarrow>
          ebind (item0 formulas) (\<lambda>f1.
          ebind (if length formulas > 2 then LTLfUntil (tl formulas) else item1 formulas) (\<lambda>f2.
          py_any (map (\<lambda>j. ebind (truth f2 i j) (\<lambda>b.
                           if b then py_all (map (\<lambda>k. truth f1 i k) [pos..j - 1])
                           else Inr False))
                      [pos..FiniteTrace_last i])))
      | LTLfReleaseT \<Rightarrow> ebind (LTLfRelease_convert formulas) (\<lambda>g. truth g i pos))"
| "truth (CommutativeBinaryOperator c formulas) i pos =
     (case c of
        PLAndT \<Rightarrow> Inl TypeError
      | PLOrT \<Rightarrow> Inl TypeError
      | LTLfAndT \<Rightarrow> py_all (map (\<lambda>f. truth f i pos) formulas)
      | LTLfOrT \<Rightarrow> py_any (map (\<lambda>f. truth f i pos) formulas)
      | LTLfEquivalenceT \<Rightarrow> ebind (LTLfEquivalence_convert formulas) (\<lambda>g. truth g i pos))"
  by pat_completeness auto
termination
  apply (relation "measure (\<lambda>(f, i, pos). wt f)")
  apply (auto simp del: wt.simps dest!: item0_member
      simp: wt_child_unary wt_child_binary wt_child_comm wt_LTLfAlways_convert
        wt_LTLfWeakNext_convert wt_LTLfRelease_convert wt_rest_LTLfUntil
        wt_LTLfEventually_convert wt_LTLfImplies_convert wt_LTLfEquivalence_convert)
  done

subsection \<open>Compiling to an automaton\<close>

text \<open>
  \<^verbatim>\<open>DFAOTF\<close> and \<^verbatim>\<open>flloat.flloat.to_automaton\<close> build the automaton outside the
  sources; what \<^verbatim>\<open>LTLfFormula.to_automaton\<close> decides is which of them is called and
  with which arguments. \<^verbatim>\<open>labels\<close> is \<^verbatim>\<open>None\<close> or a set of symbols; \<^verbatim>\<open>None\<close> has no
  attribute \<^verbatim>\<open>union\<close>.
\<close>

datatype automaton =
    DFAOTF formula
  | flloat_to_automaton formula "symbol set" bool bool

definition to_automaton ::
  "formula \<Rightarrow> symbol set option \<Rightarrow> bool \<Rightarrow> bool \<Rightarrow> bool \<Rightarrow> error + automaton" where
  "to_automaton self labels on_the_fly determinize minimize =
     (if on_the_fly then Inr (DFAOTF self)
      else (case labels of
              None \<Rightarrow> Inl AttributeError
            | Some l \<Rightarrow>
                Inr (flloat_to_automaton self (l \<union> {LTLf_LAST}) determinize minimize)))"

subsection \<open>Class tests and an example interpreter\<close>

definition isinstance_LTLfAtomic :: "formula \<Rightarrow> bool" where
  "isinstance_LTLfAtomic f = (case f of LTLfAtomicFormula _ _ \<Rightarrow> True | _ \<Rightarrow> False)"

definition isinstance_PLAtomic :: "formula \<Rightarrow> bool" where
  "isinstance_PLAtomic f = (case f of AtomicFormula _ _ \<Rightarrow> True | _ \<Rightarrow> False)"

text \<open>
  One choice of the interpreter's parameters, for evaluating concrete calls. Its hashes
  collide often (a string hashes to its length), which no result below depends on.
\<close>

definition example_python :: python where
  "example_python =
     \<lparr>hash_Symbol = (\<lambda>s. int (length s)), hash_str = (\<lambda>s. int (length s)),
      hash_LTLfAtomic_class = 7, hash_tuple = sum_list, hash_frozenset = sum_mset,
      unary_symbol = (\<lambda>c. ''!''), binary_symbol = (\<lambda>c. ''->''),
      comm_symbol = (\<lambda>c. ''&'')\<rparr>"

text \<open>The formula \<^verbatim>\<open>false R b\<close>, as \<^verbatim>\<open>LTLfRelease([LTLfFalse(), LTLfAtomic(b)])\<close> builds it.\<close>

definition release_example :: formula where
  "release_example =
     BinaryOperator LTLfReleaseT [LTLfFalse, LTLfAtomicFormula LTLfAtomicT (PLAtomic ''b'')]"

subsection \<open>Well-formed formulas, normal forms and the canonical form\<close>

text \<open>
  The LTLf formula objects that the constructors of \<^verbatim>\<open>ltlf.py\<close> build from arguments of
  the annotated types: an \<^verbatim>\<open>LTLfAtomic\<close> wraps a propositional atom, the operand of an
  operator is an LTLf formula, and an n-ary operator has passed the assertion
  \<^verbatim>\<open>len(formulas) >= 2\<close>.
\<close>

fun well_formed :: "formula \<Rightarrow> bool" where
  "well_formed (AtomicFormula c s) = False"
| "well_formed (LTLfAtomicFormula c a) = isinstance_PLAtomic a"
| "well_formed (UnaryOperator c f) = (c \<noteq> PLNotT \<and> well_formed f)"
| "well_formed (BinaryOperator c formulas) =
     (2 \<le> length formulas \<and> (\<forall>f \<in> set formulas. well_formed f))"
| "well_formed (CommutativeBinaryOperator c formulas) =
     (c \<noteq> PLAndT \<and> c \<noteq> PLOrT \<and> 2 \<le> length formulas \<and> (\<forall>f \<in> set formulas. well_formed f))"

text \<open>
  Negation normal form: negation on \<^verbatim>\<open>LTLfAtomic\<close> nodes only, and no \<^verbatim>\<open>LTLfImplies\<close> or
  \<^verbatim>\<open>LTLfEquivalence\<close> left.
\<close>

fun nnf :: "formula \<Rightarrow> bool" where
  "nnf (AtomicFormula c s) = False"
| "nnf (LTLfAtomicFormula c a) = isinstance_PLAtomic a"
| "nnf (UnaryOperator c f) =
     (case c of
        PLNotT \<Rightarrow> False
      | LTLfNotT \<Rightarrow> (case f of LTLfAtomicFormula _ a \<Rightarrow> isinstance_PLAtomic a | _ \<Rightarrow> False)
      | _ \<Rightarrow> nnf f)"
| "nnf (BinaryOperator c formulas) =
     (c \<noteq> LTLfImpliesT \<and> 2 \<le> length formulas \<and> (\<forall>f \<in> set formulas. nnf f))"
| "nnf (CommutativeBinaryOperator c formulas) =
     ((c = LTLfAndT \<or> c = LTLfOrT) \<and> 2 \<le> length formulas \<and> (\<forall>f \<in> set formulas. nnf f))"

text \<open>A propositional formula whose only atomics are \<^verbatim>\<open>PLTrue\<close> and \<^verbatim>\<open>PLFalse\<close>.\<close>

fun constant_PL :: "formula \<Rightarrow> bool" where
  "constant_PL (AtomicFormula c s) = (c \<noteq> PLAtomicT)"
| "constant_PL (CommutativeBinaryOperator c formulas) =
     ((c = PLAndT \<or> c = PLOrT) \<and> (\<forall>f \<in> set formulas. constant_PL f))"
| "constant_PL _ = False"

text \<open>
  The canonical form of \<^verbatim>\<open>_members()\<close>: the same tree, with the children of a commutative
  operator as a finite set.
\<close>

datatype cform =
    CAtomic atomic_cls symbol
  | CLTLfAtomic ltlf_atomic_cls cform
  | CUnary unary_cls cform
  | CBinary binary_cls "cform list"
  | CComm comm_cls "cform fset"

fun canon :: "formula \<Rightarrow> cform" where
  "canon (AtomicFormula c s) = CAtomic c s"
| "canon (LTLfAtomicFormula c a) = CLTLfAtomic c (canon a)"
| "canon (UnaryOperator c f) = CUnary c (canon f)"
| "canon (BinaryOperator c fs) = CBinary c (map canon fs)"
| "canon (CommutativeBinaryOperator c fs) = CComm c (fset_of_list (map canon fs))"

section \<open>Properties of the delta function\<close>

lemma PLTrue_neq_PLFalse [simp]: "PLTrue \<noteq> PLFalse" "PLFalse \<noteq> PLTrue"
  by (simp_all add: PLTrue_def PLFalse_def)

lemma eq_PLFalse: "eq p d PLFalse \<longleftrightarrow> d = PLFalse"
  by (cases d) (auto simp: PLFalse_def)

lemma u_delta_LTLfNext: "u_delta p (LTLfNext f) i epsilon = Inr (LTLfNext_delta f i epsilon)"
  by (simp add: LTLfNext_def)

lemma u_delta_LTLfWeakNext:
  "u_delta p (LTLfWeakNext f) i epsilon = Inr (LTLfWeakNext_delta f i epsilon)"
  by (simp add: LTLfWeakNext_def)

lemma PL_truth_atomic: "isinstance_PLAtomic a \<Longrightarrow> \<exists>b. PL_truth a i = Inr b"
  by (cases a) (auto simp: isinstance_PLAtomic_def)

lemma LTLfAtomic_delta_cases:
  "isinstance_PLAtomic a \<Longrightarrow>
   LTLfAtomic_delta a i epsilon = Inr PLTrue \<or> LTLfAtomic_delta a i epsilon = Inr PLFalse"
  using PL_truth_atomic[of a i] by (auto simp: LTLfAtomic_delta_def split: if_splits)

lemma u_delta_LTLfNot_atomic:
  "u_delta p (LTLfNot (LTLfAtomicFormula c a)) i epsilon =
     ebind (LTLfAtomic_delta a i epsilon) (\<lambda>d. Inr (if d = PLFalse then PLTrue else PLFalse))"
  by (simp add: LTLfNot_def eq_PLFalse)

lemma u_delta_LTLfNot_other:
  "\<not> isinstance_LTLfAtomic f \<Longrightarrow> u_delta p (LTLfNot f) i epsilon = Inl Exception"
  by (cases f) (simp_all add: LTLfNot_def isinstance_LTLfAtomic_def)

lemma item0_nth: "xs \<noteq> [] \<Longrightarrow> item0 xs = Inr (xs ! 0)"
  by (cases xs) (simp_all add: item0_def)

lemma item1_nth: "2 \<le> length xs \<Longrightarrow> item1 xs = Inr (xs ! 1)"
  by (cases xs; cases "tl xs") (simp_all add: item1_def)

text \<open>
  C1. The specification: with \<^verbatim>\<open>labels\<close> absent and \<^verbatim>\<open>on_the_fly=False\<close>, \<^verbatim>\<open>to_automaton\<close>
  builds over \<^verbatim>\<open>find_labels(\<phi>) \<union> {LAST}\<close>. The code calls \<^verbatim>\<open>labels.union(...)\<close> on the default
  \<^verbatim>\<open>None\<close>: for every formula and every setting of the other two flags the call ends in
  \<^verbatim>\<open>AttributeError\<close> and no automaton is built.
\<close>

theorem C1_labels_None_raises:
  "to_automaton self None False determinize minimize = Inl AttributeError"
  by (simp add: to_automaton_def)

theorem C1_labels_None_raises_witness:
  "to_automaton LTLfTrue None False False True = Inl AttributeError"
  using C1_labels_None_raises[of LTLfTrue False True] by simp

text \<open>
  C2 (amended). For every interpretation, \<^verbatim>\<open>delta\<close> of \<^verbatim>\<open>LTLfTrue\<close> with \<open>\<epsilon>\<close> true returns
  \<^verbatim>\<open>PLFalse\<close>, where the specification's table has \<^verbatim>\<open>PLTrue\<close>: \<^verbatim>\<open>LTLfTrue\<close> inherits
  \<^verbatim>\<open>LTLfAtomic._delta\<close>, whose first line returns \<^verbatim>\<open>PLFalse()\<close> whenever \<open>\<epsilon>\<close> is set.
\<close>

theorem C2_true_epsilon_is_PLFalse: "delta p LTLfTrue i True = Inr PLFalse"
  by (simp add: delta_def LTLfTrue_def LTLfAtomic_delta_def PLFalse_def)

theorem C2_true_epsilon_is_PLFalse_witness:
  "delta example_python LTLfTrue {''a''} True = Inr PLFalse"
  using C2_true_epsilon_is_PLFalse[of example_python "{''a''}"] by simp

text \<open>
  C2 as the specification states it fails: at the empty interpretation the result is
  not \<^verbatim>\<open>PLTrue\<close>.
\<close>

theorem C2_true_epsilon_counterexample:
  "delta example_python LTLfTrue {} True \<noteq> Inr PLTrue"
  by (simp add: delta_def LTLfTrue_def LTLfAtomic_delta_def PLFalse_def PLTrue_def)

text \<open>
  C3. The specification: \<^verbatim>\<open>delta\<close> of \<^verbatim>\<open>Not(Atomic a)\<close> with \<open>\<epsilon>\<close> true is \<^verbatim>\<open>PLFalse\<close>. The code
  negates what the atom's \<^verbatim>\<open>_delta\<close> returns; with \<open>\<epsilon>\<close> set that is \<^verbatim>\<open>PLFalse()\<close>, so
  \<^verbatim>\<open>LTLfNot._delta\<close>, and the public \<^verbatim>\<open>delta\<close> after it, return \<^verbatim>\<open>PLTrue\<close> for every
  symbol and interpretation.
\<close>

theorem C3_not_atomic_epsilon_is_PLTrue:
  "u_delta p (LTLfNot (LTLfAtomicFormula LTLfAtomicT (PLAtomic a))) i True = Inr PLTrue
   \<and> delta p (LTLfNot (LTLfAtomicFormula LTLfAtomicT (PLAtomic a))) i True = Inr PLTrue"
  by (simp add: delta_def LTLfNot_def LTLfAtomic_delta_def eq_PLFalse PLTrue_def)

theorem C3_not_atomic_epsilon_is_PLTrue_witness:
  "delta example_python (LTLfNot (LTLfAtomicFormula LTLfAtomicT (PLAtomic ''a''))) {} True
     = Inr PLTrue"
  using C3_not_atomic_epsilon_is_PLTrue[of example_python "''a''" "{}"] by simp

text \<open>
  C5. For every formula \<open>\<psi>\<close> and interpretation \<open>I\<close>: without \<open>\<epsilon>\<close>, \<^verbatim>\<open>_delta\<close> of
  \<^verbatim>\<open>Next \<psi>\<close> is \<open>\<psi>\<close> when \<^verbatim>\<open>LAST\<close> is not in \<open>I\<close> and \<^verbatim>\<open>PLFalse\<close> otherwise, and
  \<^verbatim>\<open>_delta\<close> of \<^verbatim>\<open>WeakNext \<psi>\<close> is \<open>\<psi>\<close> when \<^verbatim>\<open>LAST\<close> is not in \<open>I\<close> and \<^verbatim>\<open>PLTrue\<close>
  otherwise; with \<open>\<epsilon>\<close> they are \<^verbatim>\<open>PLFalse\<close> and \<^verbatim>\<open>PLTrue\<close>.
\<close>

theorem C5_next_weaknext_delta:
  "u_delta p (LTLfNext psi) i False = Inr (if LTLf_LAST \<notin> i then psi else PLFalse)
   \<and> u_delta p (LTLfWeakNext psi) i False = Inr (if LTLf_LAST \<notin> i then psi else PLTrue)
   \<and> u_delta p (LTLfNext psi) i True = Inr PLFalse
   \<and> u_delta p (LTLfWeakNext psi) i True = Inr PLTrue"
  by (simp add: u_delta_LTLfNext u_delta_LTLfWeakNext LTLfNext_delta_def LTLfWeakNext_delta_def)

theorem C5_next_weaknext_delta_witness:
  "u_delta example_python (LTLfNext LTLfTrue) {''a''} False = Inr LTLfTrue
   \<and> u_delta example_python (LTLfWeakNext LTLfTrue) {LTLf_LAST} False = Inr PLTrue"
  using C5_next_weaknext_delta[of example_python LTLfTrue "{''a''}"]
    C5_next_weaknext_delta[of example_python LTLfTrue "{LTLf_LAST}"]
  by (simp add: LTLf_LAST_def)

text \<open>
  The shape of \<^verbatim>\<open>_delta\<close> on the two n-ary temporal operators, as the code has it. For
  a node with at least two children, \<^verbatim>\<open>f1\<close> is the first child and \<^verbatim>\<open>f2\<close> is the operator
  over the remaining children when more than one remains and the single remaining child
  otherwise; \<^verbatim>\<open>LTLfUntil\<close> returns \<^verbatim>\<open>PLOr([f2._delta, PLAnd([f1._delta, X])])\<close> and
  \<^verbatim>\<open>LTLfRelease\<close> returns \<^verbatim>\<open>PLAnd([f2._delta, PLOr([f1._delta, X])])\<close>, where \<^verbatim>\<open>X\<close> is
  \<^verbatim>\<open>LTLfNext(self)._delta\<close> in both. An error of a part is the error of the whole.
\<close>

lemma u_delta_until_release:
  assumes "2 \<le> length fs"
  shows "u_delta p (BinaryOperator LTLfUntilT fs) i epsilon =
           ebind (if length fs > 2 then LTLfUntil (tl fs) else Inr (fs ! 1)) (\<lambda>f2.
           ebind (u_delta p f2 i epsilon) (\<lambda>d2.
           ebind (u_delta p (fs ! 0) i epsilon) (\<lambda>d1.
           ebind (u_delta p (LTLfNext (BinaryOperator LTLfUntilT fs)) i epsilon) (\<lambda>dn.
           ebind (PLAnd [d1, dn]) (\<lambda>a. PLOr [d2, a])))))
       \<and> u_delta p (BinaryOperator LTLfReleaseT fs) i epsilon =
           ebind (if length fs > 2 then LTLfRelease (tl fs) else Inr (fs ! 1)) (\<lambda>f2.
           ebind (u_delta p f2 i epsilon) (\<lambda>d2.
           ebind (u_delta p (fs ! 0) i epsilon) (\<lambda>d1.
           ebind (u_delta p (LTLfNext (BinaryOperator LTLfReleaseT fs)) i epsilon) (\<lambda>dn.
           ebind (PLOr [d1, dn]) (\<lambda>a. PLAnd [d2, a])))))"
proof -
  have ne: "fs \<noteq> []" using assms by auto
  show ?thesis
    using item0_nth[OF ne] item1_nth[OF assms]
    by (simp add: u_delta_LTLfNext)
qed

lemma release_example_delta:
  "u_delta example_python release_example {''b'', LTLf_LAST} False
     = Inr (CommutativeBinaryOperator PLAndT
              [PLTrue, CommutativeBinaryOperator PLOrT [PLFalse, PLFalse]])"
  by (simp add: release_example_def LTLfFalse_def LTLfAtomic_delta_def PLAtomic_def
      item0_def item1_def PLAnd_def PLOr_def LTLfNext_delta_def
      CommutativeBinaryOperator_init_def PLTrue_def PLFalse_def)

lemma release_example_next_form:
  "ebind (PLOr [PLFalse, LTLfNext_delta release_example {''b'', LTLf_LAST} False])
     (\<lambda>a. PLAnd [PLTrue, a])
   = Inr (CommutativeBinaryOperator PLAndT
              [PLTrue, CommutativeBinaryOperator PLOrT [PLFalse, PLFalse]])"
  by (simp add: PLAnd_def PLOr_def LTLfNext_delta_def
      CommutativeBinaryOperator_init_def PLTrue_def PLFalse_def)

lemma release_example_dual_form:
  "ebind (PLOr [PLFalse, LTLfWeakNext_delta release_example {''b'', LTLf_LAST} False])
     (\<lambda>a. PLAnd [PLTrue, a])
   = Inr (CommutativeBinaryOperator PLAndT
              [PLTrue, CommutativeBinaryOperator PLOrT [PLFalse, PLTrue]])"
  by (simp add: PLAnd_def PLOr_def LTLfWeakNext_delta_def
      CommutativeBinaryOperator_init_def PLTrue_def PLFalse_def)

lemma release_example_residual_false:
  "PL_truth (CommutativeBinaryOperator PLAndT
              [PLTrue, CommutativeBinaryOperator PLOrT [PLFalse, PLFalse]]) J = Inr False"
  by (simp add: PLTrue_def PLFalse_def)

lemma release_example_truth:
  "truth release_example [{''b'', LTLf_LAST}] 0 = Inr True"
  by (simp add: release_example_def LTLfRelease_convert_def LTLfUntil_def LTLfNot_def
      BinaryOperator_init_def LTLfFalse_def PLFalse_def PLAtomic_def item0_def item1_def
      FiniteTrace_last_def FiniteTrace_get_def upto.simps)

text \<open>
  C6. The specification: \<^verbatim>\<open>_delta\<close> of an \<^verbatim>\<open>LTLfUntil\<close> node is
  \<^verbatim>\<open>PLOr([\<delta>(f2), PLAnd([\<delta>(\<phi>1), \<delta>(Next(self))])])\<close> and that of an \<^verbatim>\<open>LTLfRelease\<close> node is the
  dual. The code has the Until half (\<open>u_delta_until_release\<close>). The dual of \<^verbatim>\<open>Next\<close> is
  \<^verbatim>\<open>WeakNext\<close> (\<^verbatim>\<open>LTLfNext.Dual = LTLfWeakNext\<close>, and \<^verbatim>\<open>LTLfAlways._delta\<close> calls
  \<^verbatim>\<open>LTLfWeakNext(self)\<close>), yet \<^verbatim>\<open>LTLfRelease._delta\<close> calls \<^verbatim>\<open>LTLfNext(self)\<close>. On
  \<^verbatim>\<open>false R b\<close> and the last letter \<open>{b, LAST}\<close> the code returns the form with \<^verbatim>\<open>Next\<close>,
  which is \<^verbatim>\<open>PLAnd [PLTrue, PLOr [PLFalse, PLFalse]]\<close> and false under every
  interpretation; the dual form is \<^verbatim>\<open>PLAnd [PLTrue, PLOr [PLFalse, PLTrue]]\<close>; and the
  formula is true at position 0 of the one-letter trace \<open>[{b, LAST}]\<close>.
\<close>

theorem C6_release_delta_is_not_the_dual:
  "u_delta example_python release_example {''b'', LTLf_LAST} False
     = ebind (PLOr [PLFalse, LTLfNext_delta release_example {''b'', LTLf_LAST} False])
         (\<lambda>a. PLAnd [PLTrue, a])
   \<and> u_delta example_python release_example {''b'', LTLf_LAST} False
     = Inr (CommutativeBinaryOperator PLAndT
              [PLTrue, CommutativeBinaryOperator PLOrT [PLFalse, PLFalse]])
   \<and> ebind (PLOr [PLFalse, LTLfWeakNext_delta release_example {''b'', LTLf_LAST} False])
         (\<lambda>a. PLAnd [PLTrue, a])
     = Inr (CommutativeBinaryOperator PLAndT
              [PLTrue, CommutativeBinaryOperator PLOrT [PLFalse, PLTrue]])
   \<and> (\<forall>J. PL_truth (CommutativeBinaryOperator PLAndT
              [PLTrue, CommutativeBinaryOperator PLOrT [PLFalse, PLFalse]]) J = Inr False)
   \<and> truth release_example [{''b'', LTLf_LAST}] 0 = Inr True"
proof (intro conjI allI)
  show "u_delta example_python release_example {''b'', LTLf_LAST} False
     = ebind (PLOr [PLFalse, LTLfNext_delta release_example {''b'', LTLf_LAST} False])
         (\<lambda>a. PLAnd [PLTrue, a])"
    by (simp only: release_example_delta release_example_next_form)
qed (rule release_example_delta release_example_dual_form release_example_residual_false
    release_example_truth)+

theorem C6_release_delta_is_not_the_dual_witness:
  "PL_truth (CommutativeBinaryOperator PLAndT
      [PLTrue, CommutativeBinaryOperator PLOrT [PLFalse, PLFalse]]) PLFalseInterpretation
     = Inr False
   \<and> truth release_example [{''b'', LTLf_LAST}] 0 = Inr True"
proof -
  note t = C6_release_delta_is_not_the_dual[THEN conjunct2, THEN conjunct2, THEN conjunct2]
  from t[THEN conjunct1] have "PL_truth (CommutativeBinaryOperator PLAndT
      [PLTrue, CommutativeBinaryOperator PLOrT [PLFalse, PLFalse]]) PLFalseInterpretation
     = Inr False"
    by (rule spec)
  with t[THEN conjunct2] show ?thesis by (intro conjI)
qed

text \<open>
  C7. \<^verbatim>\<open>_delta\<close> on an \<^verbatim>\<open>LTLfNot\<close> node raises exactly when its operand is not an
  \<^verbatim>\<open>LTLfAtomic\<close> (the error is the bare \<^verbatim>\<open>Exception\<close>); when the operand is an
  \<^verbatim>\<open>LTLfAtomic\<close> the result is \<^verbatim>\<open>PLTrue\<close> or \<^verbatim>\<open>PLFalse\<close>. An \<^verbatim>\<open>LTLfAtomic\<close> wraps a
  propositional atom, as the annotation \<^verbatim>\<open>a: PLAtomic\<close> of its constructor says.
\<close>

theorem C7_not_delta_raises_iff_not_atomic:
  assumes "\<forall>c a. f = LTLfAtomicFormula c a \<longrightarrow> isinstance_PLAtomic a"
  shows "((\<exists>e. u_delta p (LTLfNot f) i epsilon = Inl e) \<longleftrightarrow> \<not> isinstance_LTLfAtomic f)
    \<and> (\<not> isinstance_LTLfAtomic f \<longrightarrow> u_delta p (LTLfNot f) i epsilon = Inl Exception)
    \<and> (isinstance_LTLfAtomic f \<longrightarrow>
          u_delta p (LTLfNot f) i epsilon = Inr PLTrue
        \<or> u_delta p (LTLfNot f) i epsilon = Inr PLFalse)"
proof (cases "isinstance_LTLfAtomic f")
  case True
  then obtain c a where f: "f = LTLfAtomicFormula c a"
    by (cases f) (auto simp: isinstance_LTLfAtomic_def)
  with assms have "isinstance_PLAtomic a" by simp
  from LTLfAtomic_delta_cases[OF this, of i epsilon] show ?thesis
    using True by (auto simp: f u_delta_LTLfNot_atomic)
next
  case False
  then show ?thesis by (simp add: u_delta_LTLfNot_other)
qed

theorem C7_not_delta_raises_iff_not_atomic_witness:
  "u_delta example_python (LTLfNot (LTLfAtomicFormula LTLfAtomicT (PLAtomic ''a'')))
     {''a''} False = Inr PLFalse
   \<and> u_delta example_python (LTLfNot (LTLfNext LTLfTrue)) {''a''} False = Inl Exception"
  using C7_not_delta_raises_iff_not_atomic[of "LTLfAtomicFormula LTLfAtomicT (PLAtomic ''a'')"
      example_python "{''a''}" False]
    C7_not_delta_raises_iff_not_atomic[of "LTLfNext LTLfTrue" example_python "{''a''}" False]
  by (simp add: isinstance_PLAtomic_def isinstance_LTLfAtomic_def PLAtomic_def LTLfNext_def
      LTLfNot_def LTLfAtomic_delta_def PLFalse_def PLTrue_def)

section \<open>Truth on traces\<close>

text \<open>
  C8. \<^verbatim>\<open>WeakNext(a)\<close> is true at position 0 of the one-letter trace \<open>[{a}]\<close>: its truth
  is that of \<^verbatim>\<open>Not(Next(Not a))\<close>, and \<^verbatim>\<open>Next\<close> is false at every position that is not
  strictly before the last one.
\<close>

theorem C8_weaknext_truth:
  "truth (LTLfWeakNext f) i pos = truth (LTLfNot (LTLfNext (LTLfNot f))) i pos
   \<and> (FiniteTrace_last i \<le> pos \<longrightarrow> truth (LTLfNext g) i pos = Inr False)
   \<and> truth (LTLfWeakNext (LTLfAtomicFormula LTLfAtomicT (PLAtomic a))) [{a}] 0 = Inr True"
  by (simp add: LTLfWeakNext_def LTLfWeakNext_convert_def LTLfNot_def LTLfNext_def
      FiniteTrace_last_def)

theorem C8_weaknext_truth_witness:
  "truth (LTLfWeakNext (LTLfAtomicFormula LTLfAtomicT (PLAtomic ''a''))) [{''a''}] 0 = Inr True
   \<and> truth (LTLfNext (LTLfAtomicFormula LTLfAtomicT (PLAtomic ''a''))) [{''a''}] 0 = Inr False"
proof -
  have h: "FiniteTrace_last [{''a''}] \<le> 0"
    by (simp add: FiniteTrace_last_def)
  from C8_weaknext_truth[of "LTLfAtomicFormula LTLfAtomicT (PLAtomic ''a'')" "[{''a''}]" 0
      "LTLfAtomicFormula LTLfAtomicT (PLAtomic ''a'')" "''a''"] h
  show ?thesis by blast
qed

section \<open>Construction, equality and hash\<close>

text \<open>
  When the lookup of a set (same hash and equal) agrees, on the elements at hand, with
  the equality of their images under a map \<open>\<kappa>\<close>, a frozenset holds one entry per image,
  two frozensets are equal exactly when the images agree, and then their entries have
  the same hashes.
\<close>

lemma set_add_all_abstraction:
  assumes "\<And>k x. k \<in> set s \<union> set xs \<Longrightarrow> x \<in> set s \<union> set xs \<Longrightarrow>
             (hsh k = hsh x \<and> e k x) \<longleftrightarrow> \<kappa> k = \<kappa> x"
    and "distinct (map \<kappa> s)"
  shows "\<kappa> ` set (set_add_all hsh e s xs) = \<kappa> ` (set s \<union> set xs)
       \<and> distinct (map \<kappa> (set_add_all hsh e s xs))
       \<and> set (set_add_all hsh e s xs) \<subseteq> set s \<union> set xs"
  using assms
proof (induction xs arbitrary: s)
  case Nil
  then show ?case by simp
next
  case (Cons x xs)
  have c: "set_contains hsh e s x \<longleftrightarrow> \<kappa> x \<in> \<kappa> ` set s"
    using Cons.prems(1) by (auto simp: set_contains_def image_iff) metis+
  let ?s = "if set_contains hsh e s x then s else s @ [x]"
  have sub: "set ?s \<union> set xs \<subseteq> set s \<union> set (x # xs)" by auto
  have d: "distinct (map \<kappa> ?s)" using Cons.prems(2) c by auto
  have "\<kappa> ` set (set_add_all hsh e ?s xs) = \<kappa> ` (set ?s \<union> set xs)
       \<and> distinct (map \<kappa> (set_add_all hsh e ?s xs))
       \<and> set (set_add_all hsh e ?s xs) \<subseteq> set ?s \<union> set xs"
  proof (rule Cons.IH[OF _ d])
    fix k y assume "k \<in> set ?s \<union> set xs" "y \<in> set ?s \<union> set xs"
    then have "k \<in> set s \<union> set (x # xs)" "y \<in> set s \<union> set (x # xs)" using sub by blast+
    then show "(hsh k = hsh y \<and> e k y) = (\<kappa> k = \<kappa> y)" by (rule Cons.prems(1))
  qed
  moreover have "\<kappa> ` (set ?s \<union> set xs) = \<kappa> ` (set s \<union> set (x # xs))"
    using c by auto
  ultimately show ?case using sub by auto
qed

lemma frozenset_abstraction:
  assumes "\<And>k x. k \<in> set xs \<Longrightarrow> x \<in> set xs \<Longrightarrow> (hsh k = hsh x \<and> e k x) \<longleftrightarrow> \<kappa> k = \<kappa> x"
  shows "\<kappa> ` set (frozenset hsh e xs) = \<kappa> ` set xs"
    and "distinct (map \<kappa> (frozenset hsh e xs))"
    and "set (frozenset hsh e xs) \<subseteq> set xs"
  using set_add_all_abstraction[of "[]" xs hsh e \<kappa>] assms
  by (auto simp: frozenset_def)

lemma frozenset_eq_abstraction:
  assumes ab: "\<And>k x. k \<in> set xs \<union> set ys \<Longrightarrow> x \<in> set xs \<union> set ys \<Longrightarrow>
             (hsh k = hsh x \<and> e k x) \<longleftrightarrow> \<kappa> k = \<kappa> x"
  shows "frozenset_eq hsh e (frozenset hsh e xs) (frozenset hsh e ys)
         \<longleftrightarrow> \<kappa> ` set xs = \<kappa> ` set ys"
proof -
  let ?A = "frozenset hsh e xs" and ?B = "frozenset hsh e ys"
  have A: "\<kappa> ` set ?A = \<kappa> ` set xs" "distinct (map \<kappa> ?A)" "set ?A \<subseteq> set xs"
    using frozenset_abstraction[of xs hsh e \<kappa>] ab by auto
  have B: "\<kappa> ` set ?B = \<kappa> ` set ys" "distinct (map \<kappa> ?B)" "set ?B \<subseteq> set ys"
    using frozenset_abstraction[of ys hsh e \<kappa>] ab by auto
  have lA: "length ?A = card (\<kappa> ` set xs)"
    using A(1,2) distinct_card[of "map \<kappa> ?A"] by simp
  have lB: "length ?B = card (\<kappa> ` set ys)"
    using B(1,2) distinct_card[of "map \<kappa> ?B"] by simp
  have sub: "(\<forall>x \<in> set ?A. set_contains hsh e ?B x) \<longleftrightarrow> \<kappa> ` set ?A \<subseteq> \<kappa> ` set ?B"
  proof
    assume h: "\<forall>x \<in> set ?A. set_contains hsh e ?B x"
    show "\<kappa> ` set ?A \<subseteq> \<kappa> ` set ?B"
    proof
      fix v assume "v \<in> \<kappa> ` set ?A"
      then obtain a where a: "a \<in> set ?A" "v = \<kappa> a" by auto
      with h obtain b where b: "b \<in> set ?B" "hsh b = hsh a" "e b a"
        by (auto simp: set_contains_def)
      have "\<kappa> b = \<kappa> a" using ab[of b a] a(1) b A(3) B(3) by blast
      then show "v \<in> \<kappa> ` set ?B" using a(2) b(1) by (metis image_eqI)
    qed
  next
    assume h: "\<kappa> ` set ?A \<subseteq> \<kappa> ` set ?B"
    show "\<forall>x \<in> set ?A. set_contains hsh e ?B x"
    proof
      fix a assume a: "a \<in> set ?A"
      then have "\<kappa> a \<in> \<kappa> ` set ?B" using h by blast
      then obtain b where b: "b \<in> set ?B" "\<kappa> b = \<kappa> a" by force
      have "hsh b = hsh a \<and> e b a" using ab[of b a] a b A(3) B(3) by blast
      then show "set_contains hsh e ?B a" using b(1) by (auto simp: set_contains_def)
    qed
  qed
  show ?thesis
  proof
    assume "frozenset_eq hsh e ?A ?B"
    then have "card (\<kappa> ` set xs) = card (\<kappa> ` set ys)" "\<kappa> ` set xs \<subseteq> \<kappa> ` set ys"
      using lA lB sub A(1) B(1) by (auto simp: frozenset_eq_def)
    then show "\<kappa> ` set xs = \<kappa> ` set ys"
      by (simp add: card_subset_eq)
  next
    assume "\<kappa> ` set xs = \<kappa> ` set ys"
    then show "frozenset_eq hsh e ?A ?B"
      using lA lB sub A(1) B(1) by (auto simp: frozenset_eq_def)
  qed
qed

lemma frozenset_hashes_abstraction:
  assumes ab: "\<And>k x. k \<in> set xs \<union> set ys \<Longrightarrow> x \<in> set xs \<union> set ys \<Longrightarrow>
             (hsh k = hsh x \<and> e k x) \<longleftrightarrow> \<kappa> k = \<kappa> x"
    and im: "\<kappa> ` set xs = \<kappa> ` set ys"
  shows "mset (map hsh (frozenset hsh e xs)) = mset (map hsh (frozenset hsh e ys))"
proof -
  let ?A = "frozenset hsh e xs" and ?B = "frozenset hsh e ys"
  have A: "\<kappa> ` set ?A = \<kappa> ` set xs" "distinct (map \<kappa> ?A)" "set ?A \<subseteq> set xs"
    using frozenset_abstraction[of xs hsh e \<kappa>] ab by auto
  have B: "\<kappa> ` set ?B = \<kappa> ` set ys" "distinct (map \<kappa> ?B)" "set ?B \<subseteq> set ys"
    using frozenset_abstraction[of ys hsh e \<kappa>] ab by auto
  define h' where "h' v = hsh (SOME a. a \<in> set xs \<union> set ys \<and> \<kappa> a = v)" for v
  have h': "hsh a = h' (\<kappa> a)" if "a \<in> set xs \<union> set ys" for a
  proof -
    let ?a = "SOME a'. a' \<in> set xs \<union> set ys \<and> \<kappa> a' = \<kappa> a"
    have "?a \<in> set xs \<union> set ys \<and> \<kappa> ?a = \<kappa> a"
      by (rule someI[of _ a]) (use that in simp)
    then show ?thesis using ab[of ?a a] that by (simp add: h'_def)
  qed
  have mA: "mset (map hsh ?A) = image_mset h' (mset (map \<kappa> ?A))"
    using A(3) h' by (auto simp: multiset.map_comp comp_def intro!: image_mset_cong)
  have mB: "mset (map hsh ?B) = image_mset h' (mset (map \<kappa> ?B))"
    using B(3) h' by (auto simp: multiset.map_comp comp_def intro!: image_mset_cong)
  have "mset (map \<kappa> ?A) = mset_set (\<kappa> ` set xs)"
    using A(1,2) mset_set_set[of "map \<kappa> ?A"] by simp
  moreover have "mset (map \<kappa> ?B) = mset_set (\<kappa> ` set ys)"
    using B(1,2) mset_set_set[of "map \<kappa> ?B"] by simp
  ultimately show ?thesis using mA mB im by simp
qed

lemma fset_of_list_eq_iff: "fset_of_list xs = fset_of_list ys \<longleftrightarrow> set xs = set ys"
  by (metis fset_of_list.rep_eq fset_inject)

lemma eq_hash_canon_binary:
  assumes IH: "\<And>a b. a \<in> set fs \<Longrightarrow> b \<in> set gs \<Longrightarrow>
      (eq p a b \<longleftrightarrow> canon a = canon b) \<and> (canon a = canon b \<longrightarrow> hash p a = hash p b)"
  shows "(eq p (BinaryOperator c fs) (BinaryOperator c' gs)
            \<longleftrightarrow> canon (BinaryOperator c fs) = canon (BinaryOperator c' gs))
       \<and> (canon (BinaryOperator c fs) = canon (BinaryOperator c' gs)
            \<longrightarrow> hash p (BinaryOperator c fs) = hash p (BinaryOperator c' gs))"
proof -
  have nth: "(eq p (fs ! j) (gs ! j) \<longleftrightarrow> canon (fs ! j) = canon (gs ! j))
      \<and> (canon (fs ! j) = canon (gs ! j) \<longrightarrow> hash p (fs ! j) = hash p (gs ! j))"
    if "j < length fs" "j < length gs" for j
    using IH[of "fs ! j" "gs ! j"] that by simp
  have zip: "(\<forall>(f, f') \<in> set (zip fs gs). eq p f f') \<longleftrightarrow> (\<forall>j < length fs. eq p (fs ! j) (gs ! j))"
    if "length fs = length gs"
    using that by (auto simp: set_zip)
  have l1: "(length fs = length gs \<and> (\<forall>(f, f') \<in> set (zip fs gs). eq p f f'))
            \<longleftrightarrow> map canon fs = map canon gs"
  proof (cases "length fs = length gs")
    case True
    then show ?thesis
      using zip[OF True] nth by (simp add: list_eq_iff_nth_eq)
  next
    case False
    then show ?thesis using map_eq_imp_length_eq[of canon fs canon gs] by blast
  qed
  have l2: "map (hash p) fs = map (hash p) gs" if m: "map canon fs = map canon gs"
  proof -
    from m have len: "length fs = length gs" using map_eq_imp_length_eq by blast
    have "canon (fs ! j) = canon (gs ! j)" if "j < length fs" for j
      using m that len by (metis nth_map)
    then show ?thesis using len nth by (simp add: list_eq_iff_nth_eq)
  qed
  have e: "eq p (BinaryOperator c fs) (BinaryOperator c' gs)
           \<longleftrightarrow> c = c' \<and> map canon fs = map canon gs"
    using l1 by (simp only: eq.simps)
  have k: "canon (BinaryOperator c fs) = canon (BinaryOperator c' gs)
           \<longleftrightarrow> c = c' \<and> map canon fs = map canon gs"
    by simp
  have h: "hash p (BinaryOperator c fs) = hash p (BinaryOperator c' gs)"
    if "c = c'" "map canon fs = map canon gs"
    using l2 that by simp
  show ?thesis using e k h by blast
qed

lemma eq_hash_canon_comm:
  assumes IH: "\<And>a b. a \<in> set fs \<union> set gs \<Longrightarrow> b \<in> set fs \<union> set gs \<Longrightarrow>
      (eq p a b \<longleftrightarrow> canon a = canon b) \<and> (canon a = canon b \<longrightarrow> hash p a = hash p b)"
  shows "(eq p (CommutativeBinaryOperator c fs) (CommutativeBinaryOperator c' gs)
            \<longleftrightarrow> canon (CommutativeBinaryOperator c fs) = canon (CommutativeBinaryOperator c' gs))
       \<and> (canon (CommutativeBinaryOperator c fs) = canon (CommutativeBinaryOperator c' gs)
            \<longrightarrow> hash p (CommutativeBinaryOperator c fs) = hash p (CommutativeBinaryOperator c' gs))"
proof -
  have ab: "(hash p k = hash p a \<and> eq p k a) \<longleftrightarrow> canon k = canon a"
    if "k \<in> set fs \<union> set gs" "a \<in> set fs \<union> set gs" for k a
    using IH[OF that] by blast
  have e: "eq p (CommutativeBinaryOperator c fs) (CommutativeBinaryOperator c' gs)
           \<longleftrightarrow> c = c' \<and> canon ` set fs = canon ` set gs"
    using frozenset_eq_abstraction[of fs gs "hash p" "eq p" canon, OF ab]
    by (simp only: eq.simps)
  have "fset_of_list (map canon fs) = fset_of_list (map canon gs)
        \<longleftrightarrow> canon ` set fs = canon ` set gs"
    by (simp only: fset_of_list_eq_iff set_map)
  then have k: "canon (CommutativeBinaryOperator c fs) = canon (CommutativeBinaryOperator c' gs)
           \<longleftrightarrow> c = c' \<and> canon ` set fs = canon ` set gs"
    unfolding canon.simps cform.inject by simp
  have h: "hash p (CommutativeBinaryOperator c fs) = hash p (CommutativeBinaryOperator c' gs)"
    if "c = c'" "canon ` set fs = canon ` set gs"
    using frozenset_hashes_abstraction[of fs gs "hash p" "eq p" canon, OF ab] that
    by (simp only: hash.simps)
  show ?thesis using e k h by blast
qed

lemma eq_hash_canon:
  "size x \<le> n \<Longrightarrow> size y \<le> n \<Longrightarrow>
   (eq p x y \<longleftrightarrow> canon x = canon y) \<and> (canon x = canon y \<longrightarrow> hash p x = hash p y)"
proof (induction n arbitrary: x y rule: less_induct)
  case (less n)
  have IH: "(eq p a b \<longleftrightarrow> canon a = canon b) \<and> (canon a = canon b \<longrightarrow> hash p a = hash p b)"
    if "size a < n" "size b < n" for a b
    using less.IH[of "max (size a) (size b)" a b] that by simp
  show ?case
  proof (cases x)
    case x: (AtomicFormula c s)
    show ?thesis unfolding x by (cases y) simp_all
  next
    case x: (LTLfAtomicFormula c a)
    show ?thesis
    proof (cases y)
      case y: (LTLfAtomicFormula c' a')
      have "size a < n" "size a' < n" using less.prems x y by auto
      from IH[OF this] show ?thesis unfolding x y by auto
    qed (simp_all add: x)
  next
    case x: (UnaryOperator c f)
    show ?thesis
    proof (cases y)
      case y: (UnaryOperator c' f')
      have "size f < n" "size f' < n" using less.prems x y by auto
      from IH[OF this] show ?thesis unfolding x y by auto
    qed (simp_all add: x)
  next
    case x: (BinaryOperator c fs)
    show ?thesis
    proof (cases y)
      case y: (BinaryOperator c' gs)
      have sz: "size a < n" if "a \<in> set fs \<union> set gs" for a
        using that less.prems x y size_list_member[of a fs] size_list_member[of a gs] by auto
      show ?thesis unfolding x y
        by (rule eq_hash_canon_binary) (use IH sz in blast)
    qed (simp_all add: x)
  next
    case x: (CommutativeBinaryOperator c fs)
    show ?thesis
    proof (cases y)
      case y: (CommutativeBinaryOperator c' gs)
      have sz: "size a < n" if "a \<in> set fs \<union> set gs" for a
        using that less.prems x y size_list_member[of a fs] size_list_member[of a gs] by auto
      show ?thesis unfolding x y
        by (rule eq_hash_canon_comm) (use IH sz in blast)
    qed (simp_all add: x)
  qed
qed

lemma eq_iff_canon: "eq p x y \<longleftrightarrow> canon x = canon y"
  using eq_hash_canon[of x "max (size x) (size y)" y p] by simp

lemma canon_hash: "canon x = canon y \<Longrightarrow> hash p x = hash p y"
  using eq_hash_canon[of x "max (size x) (size y)" y p] by simp

lemma u_popup_no_same_comm:
  "x \<in> set (u_popup f) \<Longrightarrow> f = CommutativeBinaryOperator c fs \<Longrightarrow>
   x \<noteq> CommutativeBinaryOperator c gs"
proof (induction f arbitrary: x c fs gs rule: u_popup.induct)
  case (2 c' formulas)
  then have [simp]: "c' = c" "formulas = fs" by auto
  from "2.prems"(1) obtain child where ch: "child \<in> set fs"
    and x: "x \<in> set (case child of
              CommutativeBinaryOperator c2 _ \<Rightarrow> if c2 = c then u_popup child else [child]
            | _ \<Rightarrow> [child])"
    by auto
  show ?case
  proof (cases child)
    case (CommutativeBinaryOperator c2 hs)
    show ?thesis
    proof (cases "c2 = c")
      case True
      then show ?thesis
        using "2.IH"[of child c2 hs x c hs gs] ch x CommutativeBinaryOperator by simp
    next
      case False
      then show ?thesis using x CommutativeBinaryOperator by auto
    qed
  qed (use x in auto)
qed simp_all

lemma u_popup_no_same_binary:
  "x \<in> set (u_popup f) \<Longrightarrow> f = BinaryOperator c fs \<Longrightarrow> x \<noteq> BinaryOperator c gs"
proof (induction f arbitrary: x c fs gs rule: u_popup.induct)
  case (1 c' formulas)
  then have [simp]: "c' = c" "formulas = fs" by auto
  from "1.prems"(1) obtain child where ch: "child \<in> set fs"
    and x: "x \<in> set (case child of
              BinaryOperator c2 _ \<Rightarrow> if c2 = c then u_popup child else [child]
            | _ \<Rightarrow> [child])"
    by auto
  show ?case
  proof (cases child)
    case (BinaryOperator c2 hs)
    show ?thesis
    proof (cases "c2 = c")
      case True
      then show ?thesis
        using "1.IH"[of child c2 hs x c hs gs] ch x BinaryOperator by simp
    next
      case False
      then show ?thesis using x BinaryOperator by auto
    qed
  qed (use x in auto)
qed simp_all

lemma u_popup_flat_comm:
  "(\<And>x gs. x \<in> set xs \<Longrightarrow> x \<noteq> CommutativeBinaryOperator c gs) \<Longrightarrow>
   u_popup (CommutativeBinaryOperator c xs) = xs"
proof (induction xs)
  case Nil
  then show ?case by simp
next
  case (Cons x xs)
  have "u_popup (CommutativeBinaryOperator c xs) = xs" using Cons by simp
  moreover have "(case x of
        CommutativeBinaryOperator c2 _ \<Rightarrow> if c2 = c then u_popup x else [x]
      | _ \<Rightarrow> [x]) = [x]"
    using Cons.prems[of x] by (cases x) auto
  ultimately show ?case by simp
qed

lemma u_popup_flat_binary:
  "(\<And>x gs. x \<in> set xs \<Longrightarrow> x \<noteq> BinaryOperator c gs) \<Longrightarrow>
   u_popup (BinaryOperator c xs) = xs"
proof (induction xs)
  case Nil
  then show ?case by simp
next
  case (Cons x xs)
  have "u_popup (BinaryOperator c xs) = xs" using Cons by simp
  moreover have "(case x of
        BinaryOperator c2 _ \<Rightarrow> if c2 = c then u_popup x else [x]
      | _ \<Rightarrow> [x]) = [x]"
    using Cons.prems[of x] by (cases x) auto
  ultimately show ?case by simp
qed

lemma u_popup_idem_comm:
  "u_popup (CommutativeBinaryOperator c (u_popup (CommutativeBinaryOperator c fs)))
     = u_popup (CommutativeBinaryOperator c fs)"
  by (rule u_popup_flat_comm) (use u_popup_no_same_comm in blast)

lemma u_popup_idem_binary:
  "u_popup (BinaryOperator c (u_popup (BinaryOperator c fs))) = u_popup (BinaryOperator c fs)"
  by (rule u_popup_flat_binary) (use u_popup_no_same_binary in blast)

lemma u_popup_append_comm:
  "u_popup (CommutativeBinaryOperator c (xs @ ys))
     = u_popup (CommutativeBinaryOperator c xs) @ u_popup (CommutativeBinaryOperator c ys)"
  by simp

lemma u_popup_append_binary:
  "u_popup (BinaryOperator c (xs @ ys))
     = u_popup (BinaryOperator c xs) @ u_popup (BinaryOperator c ys)"
  by simp

lemma u_popup_nested_comm:
  "u_popup (CommutativeBinaryOperator c
      [CommutativeBinaryOperator c (u_popup (CommutativeBinaryOperator c [a, b])), d])
   = u_popup (CommutativeBinaryOperator c [a, b, d])"
proof -
  have "u_popup (CommutativeBinaryOperator c
      [CommutativeBinaryOperator c (u_popup (CommutativeBinaryOperator c [a, b])), d])
    = u_popup (CommutativeBinaryOperator c (u_popup (CommutativeBinaryOperator c [a, b])))
      @ u_popup (CommutativeBinaryOperator c [d])"
    by simp
  also have "\<dots> = u_popup (CommutativeBinaryOperator c [a, b])
      @ u_popup (CommutativeBinaryOperator c [d])"
    by (simp only: u_popup_idem_comm)
  also have "\<dots> = u_popup (CommutativeBinaryOperator c ([a, b] @ [d]))"
    by (simp only: u_popup_append_comm)
  finally show ?thesis by simp
qed

lemma u_popup_nested_binary:
  "u_popup (BinaryOperator c [BinaryOperator c (u_popup (BinaryOperator c [a, b])), d])
   = u_popup (BinaryOperator c [a, b, d])"
proof -
  have "u_popup (BinaryOperator c [BinaryOperator c (u_popup (BinaryOperator c [a, b])), d])
    = u_popup (BinaryOperator c (u_popup (BinaryOperator c [a, b])))
      @ u_popup (BinaryOperator c [d])"
    by simp
  also have "\<dots> = u_popup (BinaryOperator c [a, b]) @ u_popup (BinaryOperator c [d])"
    by (simp only: u_popup_idem_binary)
  also have "\<dots> = u_popup (BinaryOperator c ([a, b] @ [d]))"
    by (simp only: u_popup_append_binary)
  finally show ?thesis by simp
qed

lemma eq_refl: "eq p x x"
  by (simp add: eq_iff_canon)

lemma init_comm:
  "2 \<le> length fs \<Longrightarrow>
   CommutativeBinaryOperator_init c fs
     = Inr (CommutativeBinaryOperator c (u_popup (CommutativeBinaryOperator c fs)))"
  by (simp only: CommutativeBinaryOperator_init_def if_True)

lemma init_binary:
  "2 \<le> length fs \<Longrightarrow>
   BinaryOperator_init c fs = Inr (BinaryOperator c (u_popup (BinaryOperator c fs)))"
  by (simp only: BinaryOperator_init_def if_True)

lemma eq_comm_same_set:
  assumes "set xs = set ys"
  shows "eq p (CommutativeBinaryOperator c xs) (CommutativeBinaryOperator c ys)"
proof -
  have "fset_of_list (map canon xs) = fset_of_list (map canon ys)"
    using assms by (simp only: fset_of_list_eq_iff set_map)
  then show ?thesis by (simp only: eq_iff_canon canon.simps)
qed

lemma eq_comm_swap:
  "eq p (CommutativeBinaryOperator c (u_popup (CommutativeBinaryOperator c [a, b])))
        (CommutativeBinaryOperator c (u_popup (CommutativeBinaryOperator c [b, a])))"
  by (rule eq_comm_same_set) auto

lemma eq_comm_dup:
  "eq p (CommutativeBinaryOperator c (u_popup (CommutativeBinaryOperator c [a, a, b])))
        (CommutativeBinaryOperator c (u_popup (CommutativeBinaryOperator c [a, b])))"
  by (rule eq_comm_same_set) auto

lemma flatten_comm:
  "\<exists>ab x y. CommutativeBinaryOperator_init c [a, b] = Inr ab
       \<and> CommutativeBinaryOperator_init c [ab, d] = Inr x
       \<and> CommutativeBinaryOperator_init c [a, b, d] = Inr y
       \<and> x = y \<and> eq p x y
       \<and> ((\<forall>gs. a \<noteq> CommutativeBinaryOperator c gs \<and> b \<noteq> CommutativeBinaryOperator c gs
                \<and> d \<noteq> CommutativeBinaryOperator c gs)
            \<longrightarrow> x = CommutativeBinaryOperator c [a, b, d])"
proof -
  let ?ab = "CommutativeBinaryOperator c (u_popup (CommutativeBinaryOperator c [a, b]))"
  let ?y = "CommutativeBinaryOperator c (u_popup (CommutativeBinaryOperator c [a, b, d]))"
  have 1: "CommutativeBinaryOperator_init c [a, b] = Inr ?ab"
    by (rule init_comm) simp
  have 2: "CommutativeBinaryOperator_init c [?ab, d] = Inr ?y"
    using init_comm[of "[?ab, d]" c] by (simp only: u_popup_nested_comm) simp
  have 3: "CommutativeBinaryOperator_init c [a, b, d] = Inr ?y"
    by (rule init_comm) simp
  have 4: "?y = CommutativeBinaryOperator c [a, b, d]"
    if "\<forall>gs. a \<noteq> CommutativeBinaryOperator c gs \<and> b \<noteq> CommutativeBinaryOperator c gs
                \<and> d \<noteq> CommutativeBinaryOperator c gs"
  proof -
    have "u_popup (CommutativeBinaryOperator c [a, b, d]) = [a, b, d]"
      by (rule u_popup_flat_comm) (use that in auto)
    then show ?thesis by (simp only:)
  qed
  show ?thesis using 1 2 3 4 eq_refl[of p ?y] by blast
qed

lemma flatten_binary:
  "\<exists>ab x y. BinaryOperator_init c [a, b] = Inr ab
       \<and> BinaryOperator_init c [ab, d] = Inr x
       \<and> BinaryOperator_init c [a, b, d] = Inr y
       \<and> x = y \<and> eq p x y
       \<and> ((\<forall>gs. a \<noteq> BinaryOperator c gs \<and> b \<noteq> BinaryOperator c gs
                \<and> d \<noteq> BinaryOperator c gs)
            \<longrightarrow> x = BinaryOperator c [a, b, d])"
proof -
  let ?ab = "BinaryOperator c (u_popup (BinaryOperator c [a, b]))"
  let ?y = "BinaryOperator c (u_popup (BinaryOperator c [a, b, d]))"
  have 1: "BinaryOperator_init c [a, b] = Inr ?ab"
    by (rule init_binary) simp
  have 2: "BinaryOperator_init c [?ab, d] = Inr ?y"
    using init_binary[of "[?ab, d]" c] by (simp only: u_popup_nested_binary) simp
  have 3: "BinaryOperator_init c [a, b, d] = Inr ?y"
    by (rule init_binary) simp
  have 4: "?y = BinaryOperator c [a, b, d]"
    if "\<forall>gs. a \<noteq> BinaryOperator c gs \<and> b \<noteq> BinaryOperator c gs \<and> d \<noteq> BinaryOperator c gs"
  proof -
    have "u_popup (BinaryOperator c [a, b, d]) = [a, b, d]"
      by (rule u_popup_flat_binary) (use that in auto)
    then show ?thesis by (simp only:)
  qed
  show ?thesis using 1 2 3 4 eq_refl[of p ?y] by blast
qed

lemma commutative_swap:
  "\<exists>u v. CommutativeBinaryOperator_init c [a, b] = Inr u
       \<and> CommutativeBinaryOperator_init c [b, a] = Inr v \<and> eq p u v"
proof -
  have 1: "CommutativeBinaryOperator_init c [a, b]
      = Inr (CommutativeBinaryOperator c (u_popup (CommutativeBinaryOperator c [a, b])))"
    by (rule init_comm) simp
  have 2: "CommutativeBinaryOperator_init c [b, a]
      = Inr (CommutativeBinaryOperator c (u_popup (CommutativeBinaryOperator c [b, a])))"
    by (rule init_comm) simp
  show ?thesis using 1 2 eq_comm_swap[of p c a b] by blast
qed

lemma commutative_dup:
  "\<exists>u v. CommutativeBinaryOperator_init c [a, a, b] = Inr u
       \<and> CommutativeBinaryOperator_init c [a, b] = Inr v \<and> eq p u v"
proof -
  have 1: "CommutativeBinaryOperator_init c [a, a, b]
      = Inr (CommutativeBinaryOperator c (u_popup (CommutativeBinaryOperator c [a, a, b])))"
    by (rule init_comm) simp
  have 2: "CommutativeBinaryOperator_init c [a, b]
      = Inr (CommutativeBinaryOperator c (u_popup (CommutativeBinaryOperator c [a, b])))"
    by (rule init_comm) simp
  show ?thesis using 1 2 eq_comm_dup[of p c a b] by blast
qed

text \<open>
  C9. Construction flattens nested children of the same class: for a commutative class
  (\<^verbatim>\<open>And\<close> is \<^verbatim>\<open>LTLfAnd\<close>, class \<open>LTLfAndT\<close>) and for a binary class alike,
  \<^verbatim>\<open>And([And([a,b]), c])\<close> and \<^verbatim>\<open>And([a,b,c])\<close> are built without error, are the same
  object and compare equal, and the child tuple is \<open>(a, b, c)\<close> when none of the three
  is itself of that class (otherwise its children take its place). For a commutative
  class, \<^verbatim>\<open>And([a,b]) == And([b,a])\<close> and \<^verbatim>\<open>And([a,a,b]) == And([a,b])\<close>. The third child is
  named \<open>d\<close>, \<open>c\<close> being the class.
\<close>

theorem C9_flatten_and_commutative_equality:
  "(\<exists>ab x y. CommutativeBinaryOperator_init c [a, b] = Inr ab
       \<and> CommutativeBinaryOperator_init c [ab, d] = Inr x
       \<and> CommutativeBinaryOperator_init c [a, b, d] = Inr y
       \<and> x = y \<and> eq p x y
       \<and> ((\<forall>gs. a \<noteq> CommutativeBinaryOperator c gs \<and> b \<noteq> CommutativeBinaryOperator c gs
                \<and> d \<noteq> CommutativeBinaryOperator c gs)
            \<longrightarrow> x = CommutativeBinaryOperator c [a, b, d]))
   \<and> (\<exists>ab x y. BinaryOperator_init c' [a, b] = Inr ab
       \<and> BinaryOperator_init c' [ab, d] = Inr x
       \<and> BinaryOperator_init c' [a, b, d] = Inr y
       \<and> x = y \<and> eq p x y
       \<and> ((\<forall>gs. a \<noteq> BinaryOperator c' gs \<and> b \<noteq> BinaryOperator c' gs
                \<and> d \<noteq> BinaryOperator c' gs)
            \<longrightarrow> x = BinaryOperator c' [a, b, d]))
   \<and> (\<exists>u v. CommutativeBinaryOperator_init c [a, b] = Inr u
       \<and> CommutativeBinaryOperator_init c [b, a] = Inr v \<and> eq p u v)
   \<and> (\<exists>u v. CommutativeBinaryOperator_init c [a, a, b] = Inr u
       \<and> CommutativeBinaryOperator_init c [a, b] = Inr v \<and> eq p u v)"
  using flatten_comm[of c a b d p] flatten_binary[of c' a b d p]
    commutative_swap[of c a b p] commutative_dup[of c a b p]
  by (intro conjI)

lemma init_comm_flat:
  "2 \<le> length fs \<Longrightarrow> (\<And>x gs. x \<in> set fs \<Longrightarrow> x \<noteq> CommutativeBinaryOperator c gs) \<Longrightarrow>
   CommutativeBinaryOperator_init c fs = Inr (CommutativeBinaryOperator c fs)"
  using init_comm[of fs c] u_popup_flat_comm[of fs c] by simp

theorem C9_flatten_and_commutative_equality_witness:
  "LTLfAnd [LTLfTrue, LTLfFalse] = Inr (CommutativeBinaryOperator LTLfAndT [LTLfTrue, LTLfFalse])
   \<and> LTLfAnd [CommutativeBinaryOperator LTLfAndT [LTLfTrue, LTLfFalse], LTLfNext LTLfTrue]
       = Inr (CommutativeBinaryOperator LTLfAndT [LTLfTrue, LTLfFalse, LTLfNext LTLfTrue])
   \<and> eq example_python (CommutativeBinaryOperator LTLfAndT [LTLfTrue, LTLfFalse])
        (CommutativeBinaryOperator LTLfAndT [LTLfFalse, LTLfTrue])
   \<and> eq example_python (CommutativeBinaryOperator LTLfAndT [LTLfTrue, LTLfTrue, LTLfFalse])
        (CommutativeBinaryOperator LTLfAndT [LTLfTrue, LTLfFalse])"
proof -
  let ?A = "LTLfTrue" and ?B = "LTLfFalse" and ?C = "LTLfNext LTLfTrue"
  note C = C9_flatten_and_commutative_equality[of LTLfAndT ?A ?B ?C example_python LTLfUntilT]
  have i1: "CommutativeBinaryOperator_init LTLfAndT [?A, ?B]
      = Inr (CommutativeBinaryOperator LTLfAndT [?A, ?B])"
    by (rule init_comm_flat) (auto simp: LTLfTrue_def LTLfFalse_def)
  have i2: "CommutativeBinaryOperator_init LTLfAndT [?B, ?A]
      = Inr (CommutativeBinaryOperator LTLfAndT [?B, ?A])"
    by (rule init_comm_flat) (auto simp: LTLfTrue_def LTLfFalse_def)
  have i3: "CommutativeBinaryOperator_init LTLfAndT [?A, ?A, ?B]
      = Inr (CommutativeBinaryOperator LTLfAndT [?A, ?A, ?B])"
    by (rule init_comm_flat) (auto simp: LTLfTrue_def LTLfFalse_def)
  have i4: "CommutativeBinaryOperator_init LTLfAndT [?A, ?B, ?C]
      = Inr (CommutativeBinaryOperator LTLfAndT [?A, ?B, ?C])"
    by (rule init_comm_flat) (auto simp: LTLfTrue_def LTLfFalse_def LTLfNext_def)
  from C[THEN conjunct1] obtain ab x y where
    o: "CommutativeBinaryOperator_init LTLfAndT [?A, ?B] = Inr ab"
       "CommutativeBinaryOperator_init LTLfAndT [ab, ?C] = Inr x"
       "CommutativeBinaryOperator_init LTLfAndT [?A, ?B, ?C] = Inr y" "x = y"
    by (elim exE conjE)
  have f: "CommutativeBinaryOperator_init LTLfAndT
        [CommutativeBinaryOperator LTLfAndT [?A, ?B], ?C]
      = Inr (CommutativeBinaryOperator LTLfAndT [?A, ?B, ?C])"
    using o i1 i4 by simp
  from C[THEN conjunct2, THEN conjunct2, THEN conjunct1] obtain u v where
    s: "CommutativeBinaryOperator_init LTLfAndT [?A, ?B] = Inr u"
       "CommutativeBinaryOperator_init LTLfAndT [?B, ?A] = Inr v" "eq example_python u v"
    by (elim exE conjE)
  have sw: "eq example_python (CommutativeBinaryOperator LTLfAndT [?A, ?B])
        (CommutativeBinaryOperator LTLfAndT [?B, ?A])"
    using s i1 i2 by (simp del: eq.simps)
  from C[THEN conjunct2, THEN conjunct2, THEN conjunct2] obtain u v where
    d: "CommutativeBinaryOperator_init LTLfAndT [?A, ?A, ?B] = Inr u"
       "CommutativeBinaryOperator_init LTLfAndT [?A, ?B] = Inr v" "eq example_python u v"
    by (elim exE conjE)
  have du: "eq example_python (CommutativeBinaryOperator LTLfAndT [?A, ?A, ?B])
        (CommutativeBinaryOperator LTLfAndT [?A, ?B])"
    using d i1 i3 by (simp del: eq.simps)
  show ?thesis
    unfolding LTLfAnd_def by (intro conjI i1 f sw du)
qed

text \<open>
  C10. For all formulas \<open>\<phi>\<close> and \<open>\<psi>\<close>, whatever the hashes of symbols, strings, tuples
  and frozensets are: if \<^verbatim>\<open>\<phi> == \<psi>\<close> then \<^verbatim>\<open>hash(\<phi>) == hash(\<psi>)\<close>. Both are functions of
  the canonical form of \<^verbatim>\<open>_members()\<close>, for every object of the datatype and so for
  everything the constructors build.
\<close>

theorem C10_eq_implies_equal_hash: "eq p x y \<Longrightarrow> hash p x = hash p y"
  using canon_hash[of x y p] by (simp only: eq_iff_canon)

theorem C10_eq_implies_equal_hash_witness:
  "eq example_python (CommutativeBinaryOperator LTLfAndT [LTLfTrue, LTLfFalse])
        (CommutativeBinaryOperator LTLfAndT [LTLfFalse, LTLfTrue, LTLfFalse])
   \<and> hash example_python (CommutativeBinaryOperator LTLfAndT [LTLfTrue, LTLfFalse])
     = hash example_python (CommutativeBinaryOperator LTLfAndT [LTLfFalse, LTLfTrue, LTLfFalse])"
proof -
  have e: "eq example_python (CommutativeBinaryOperator LTLfAndT [LTLfTrue, LTLfFalse])
        (CommutativeBinaryOperator LTLfAndT [LTLfFalse, LTLfTrue, LTLfFalse])"
    by (rule eq_comm_same_set) (simp add: insert_commute)
  show ?thesis
    by (intro conjI e C10_eq_implies_equal_hash[OF e])
qed

section \<open>The collapse of delta at the end of the trace\<close>

lemma u_popup_comm_all:
  assumes her: "\<And>c gs g. P (CommutativeBinaryOperator c gs) \<Longrightarrow> g \<in> set gs \<Longrightarrow> P g"
  shows "f = CommutativeBinaryOperator c fs \<Longrightarrow> (\<And>g. g \<in> set fs \<Longrightarrow> P g) \<Longrightarrow>
         x \<in> set (u_popup f) \<Longrightarrow> P x"
proof (induction f arbitrary: c fs x rule: u_popup.induct)
  case (2 c' formulas)
  then have [simp]: "c' = c" "formulas = fs" by auto
  from "2.prems"(3) obtain child where ch: "child \<in> set fs"
    and x: "x \<in> set (case child of
              CommutativeBinaryOperator c2 _ \<Rightarrow> if c2 = c then u_popup child else [child]
            | _ \<Rightarrow> [child])"
    by auto
  have Pch: "P child" using ch "2.prems"(2) by simp
  show ?case
  proof (cases child)
    case (CommutativeBinaryOperator c2 hs)
    show ?thesis
    proof (cases "c2 = c")
      case True
      have "\<And>g. g \<in> set hs \<Longrightarrow> P g" using her Pch CommutativeBinaryOperator by blast
      then show ?thesis
        using "2.IH"[of child c2 hs c hs x] ch x CommutativeBinaryOperator True by simp
    next
      case False
      then show ?thesis using x CommutativeBinaryOperator Pch by auto
    qed
  qed (use x Pch in auto)
qed simp_all

lemma u_popup_binary_all:
  assumes her: "\<And>c gs g. P (BinaryOperator c gs) \<Longrightarrow> g \<in> set gs \<Longrightarrow> P g"
  shows "f = BinaryOperator c fs \<Longrightarrow> (\<And>g. g \<in> set fs \<Longrightarrow> P g) \<Longrightarrow>
         x \<in> set (u_popup f) \<Longrightarrow> P x"
proof (induction f arbitrary: c fs x rule: u_popup.induct)
  case (1 c' formulas)
  then have [simp]: "c' = c" "formulas = fs" by auto
  from "1.prems"(3) obtain child where ch: "child \<in> set fs"
    and x: "x \<in> set (case child of
              BinaryOperator c2 _ \<Rightarrow> if c2 = c then u_popup child else [child]
            | _ \<Rightarrow> [child])"
    by auto
  have Pch: "P child" using ch "1.prems"(2) by simp
  show ?case
  proof (cases child)
    case (BinaryOperator c2 hs)
    show ?thesis
    proof (cases "c2 = c")
      case True
      have "\<And>g. g \<in> set hs \<Longrightarrow> P g" using her Pch BinaryOperator by blast
      then show ?thesis
        using "1.IH"[of child c2 hs c hs x] ch x BinaryOperator True by simp
    next
      case False
      then show ?thesis using x BinaryOperator Pch by auto
    qed
  qed (use x Pch in auto)
qed simp_all

lemma length_concat_ge:
  "(\<And>x. x \<in> set xs \<Longrightarrow> 1 \<le> length (g x)) \<Longrightarrow> length xs \<le> length (concat (map g xs))"
proof (induction xs)
  case Nil
  then show ?case by simp
next
  case (Cons a xs)
  have "1 \<le> length (g a)" using Cons.prems[of a] by simp
  moreover have "length xs \<le> length (concat (map g xs))" using Cons by simp
  ultimately show ?case by simp
qed

lemma u_popup_comm_length:
  assumes her: "\<And>c gs g. P (CommutativeBinaryOperator c gs) \<Longrightarrow> g \<in> set gs \<Longrightarrow> P g"
    and ne: "\<And>c gs. P (CommutativeBinaryOperator c gs) \<Longrightarrow> 1 \<le> length gs"
  shows "f = CommutativeBinaryOperator c fs \<Longrightarrow> (\<And>g. g \<in> set fs \<Longrightarrow> P g) \<Longrightarrow>
         length fs \<le> length (u_popup f)"
proof (induction f arbitrary: c fs rule: u_popup.induct)
  case (2 c' formulas)
  then have [simp]: "c' = c" "formulas = fs" by auto
  have "length fs \<le> length (concat (map (\<lambda>child. case child of
              CommutativeBinaryOperator c2 _ \<Rightarrow> if c2 = c then u_popup child else [child]
            | _ \<Rightarrow> [child]) fs))"
  proof (rule length_concat_ge)
    fix child assume ch: "child \<in> set fs"
    have Pch: "P child" using ch "2.prems"(2) by simp
    show "1 \<le> length (case child of
              CommutativeBinaryOperator c2 _ \<Rightarrow> if c2 = c then u_popup child else [child]
            | _ \<Rightarrow> [child])"
    proof (cases child)
      case (CommutativeBinaryOperator c2 hs)
      show ?thesis
      proof (cases "c2 = c")
        case True
        have "\<And>g. g \<in> set hs \<Longrightarrow> P g" using her Pch CommutativeBinaryOperator by blast
        then have "length hs \<le> length (u_popup child)"
          using "2.IH"[of child c2 hs c hs] ch CommutativeBinaryOperator True by simp
        moreover have "1 \<le> length hs" using ne Pch CommutativeBinaryOperator by blast
        ultimately show ?thesis using CommutativeBinaryOperator True by simp
      next
        case False
        then show ?thesis using CommutativeBinaryOperator by simp
      qed
    qed simp_all
  qed
  then show ?case by simp
qed simp_all

lemma u_popup_binary_length:
  assumes her: "\<And>c gs g. P (BinaryOperator c gs) \<Longrightarrow> g \<in> set gs \<Longrightarrow> P g"
    and ne: "\<And>c gs. P (BinaryOperator c gs) \<Longrightarrow> 1 \<le> length gs"
  shows "f = BinaryOperator c fs \<Longrightarrow> (\<And>g. g \<in> set fs \<Longrightarrow> P g) \<Longrightarrow>
         length fs \<le> length (u_popup f)"
proof (induction f arbitrary: c fs rule: u_popup.induct)
  case (1 c' formulas)
  then have [simp]: "c' = c" "formulas = fs" by auto
  have "length fs \<le> length (concat (map (\<lambda>child. case child of
              BinaryOperator c2 _ \<Rightarrow> if c2 = c then u_popup child else [child]
            | _ \<Rightarrow> [child]) fs))"
  proof (rule length_concat_ge)
    fix child assume ch: "child \<in> set fs"
    have Pch: "P child" using ch "1.prems"(2) by simp
    show "1 \<le> length (case child of
              BinaryOperator c2 _ \<Rightarrow> if c2 = c then u_popup child else [child]
            | _ \<Rightarrow> [child])"
    proof (cases child)
      case (BinaryOperator c2 hs)
      show ?thesis
      proof (cases "c2 = c")
        case True
        have "\<And>g. g \<in> set hs \<Longrightarrow> P g" using her Pch BinaryOperator by blast
        then have "length hs \<le> length (u_popup child)"
          using "1.IH"[of child c2 hs c hs] ch BinaryOperator True by simp
        moreover have "1 \<le> length hs" using ne Pch BinaryOperator by blast
        ultimately show ?thesis using BinaryOperator True by simp
      next
        case False
        then show ?thesis using BinaryOperator by simp
      qed
    qed simp_all
  qed
  then show ?case by simp
qed simp_all

lemma nnf_BinaryOperator_init:
  assumes "c \<noteq> LTLfImpliesT" "2 \<le> length fs" "\<And>f. f \<in> set fs \<Longrightarrow> nnf f"
  shows "\<exists>g. BinaryOperator_init c fs = Inr g \<and> nnf g"
proof -
  let ?ps = "u_popup (BinaryOperator c fs)"
  have a: "\<And>x. x \<in> set ?ps \<Longrightarrow> nnf x"
    by (rule u_popup_binary_all[of nnf "BinaryOperator c fs" c fs]) (use assms(3) in auto)
  have l: "length fs \<le> length ?ps"
    by (rule u_popup_binary_length[of nnf "BinaryOperator c fs" c fs]) (use assms(3) in auto)
  have "nnf (BinaryOperator c ?ps)" using a l assms(1,2) by simp
  then show ?thesis using assms(2) by (simp add: BinaryOperator_init_def)
qed

lemma nnf_CommutativeBinaryOperator_init:
  assumes "c = LTLfAndT \<or> c = LTLfOrT" "2 \<le> length fs" "\<And>f. f \<in> set fs \<Longrightarrow> nnf f"
  shows "\<exists>g. CommutativeBinaryOperator_init c fs = Inr g \<and> nnf g"
proof -
  let ?ps = "u_popup (CommutativeBinaryOperator c fs)"
  have a: "\<And>x. x \<in> set ?ps \<Longrightarrow> nnf x"
    by (rule u_popup_comm_all[of nnf "CommutativeBinaryOperator c fs" c fs]) (use assms(3) in auto)
  have l: "length fs \<le> length ?ps"
    by (rule u_popup_comm_length[of nnf "CommutativeBinaryOperator c fs" c fs])
      (use assms(3) in auto)
  have "nnf (CommutativeBinaryOperator c ?ps)" using a l assms(1,2) by simp
  then show ?thesis using assms(2) by (simp add: CommutativeBinaryOperator_init_def)
qed

lemma well_formed_BinaryOperator_init:
  assumes "2 \<le> length fs" "\<And>f. f \<in> set fs \<Longrightarrow> well_formed f"
  shows "\<exists>g. BinaryOperator_init c fs = Inr g \<and> well_formed g"
proof -
  let ?ps = "u_popup (BinaryOperator c fs)"
  have a: "\<And>x. x \<in> set ?ps \<Longrightarrow> well_formed x"
    by (rule u_popup_binary_all[of well_formed "BinaryOperator c fs" c fs]) (use assms(2) in auto)
  have l: "length fs \<le> length ?ps"
    by (rule u_popup_binary_length[of well_formed "BinaryOperator c fs" c fs])
      (use assms(2) in auto)
  have "well_formed (BinaryOperator c ?ps)" using a l assms(1) by simp
  then show ?thesis using assms(1) by (simp add: BinaryOperator_init_def)
qed

lemma well_formed_CommutativeBinaryOperator_init:
  assumes "c \<noteq> PLAndT" "c \<noteq> PLOrT" "2 \<le> length fs" "\<And>f. f \<in> set fs \<Longrightarrow> well_formed f"
  shows "\<exists>g. CommutativeBinaryOperator_init c fs = Inr g \<and> well_formed g"
proof -
  let ?ps = "u_popup (CommutativeBinaryOperator c fs)"
  have a: "\<And>x. x \<in> set ?ps \<Longrightarrow> well_formed x"
    by (rule u_popup_comm_all[of well_formed "CommutativeBinaryOperator c fs" c fs])
      (use assms(4) in auto)
  have l: "length fs \<le> length ?ps"
    by (rule u_popup_comm_length[of well_formed "CommutativeBinaryOperator c fs" c fs])
      (use assms(4) in auto)
  have "well_formed (CommutativeBinaryOperator c ?ps)" using a l assms(1,2,3) by simp
  then show ?thesis using assms(3) by (simp add: CommutativeBinaryOperator_init_def)
qed

lemma constant_PL_init:
  assumes "c = PLAndT \<or> c = PLOrT" "2 \<le> length ds" "\<And>d. d \<in> set ds \<Longrightarrow> constant_PL d"
  shows "\<exists>r. CommutativeBinaryOperator_init c ds = Inr r \<and> constant_PL r"
proof -
  let ?ps = "u_popup (CommutativeBinaryOperator c ds)"
  have a: "\<And>x. x \<in> set ?ps \<Longrightarrow> constant_PL x"
    by (rule u_popup_comm_all[of constant_PL "CommutativeBinaryOperator c ds" c ds])
      (use assms(3) in auto)
  have "constant_PL (CommutativeBinaryOperator c ?ps)" using a assms(1) by simp
  then show ?thesis using assms(2) by (simp add: CommutativeBinaryOperator_init_def)
qed

lemma comprehension_all:
  assumes "\<And>x. x \<in> set xs \<Longrightarrow> \<exists>y. F x = Inr y \<and> P y"
  shows "\<exists>ys. comprehension (map F xs) = Inr ys \<and> length ys = length xs \<and> (\<forall>y \<in> set ys. P y)"
  using assms
proof (induction xs)
  case Nil
  then show ?case by simp
next
  case (Cons x xs)
  from Cons.prems[of x] obtain y where y: "F x = Inr y" "P y" by auto
  from Cons.IH Cons.prems obtain ys where
    ys: "comprehension (map F xs) = Inr ys" "length ys = length xs" "\<forall>y \<in> set ys. P y"
    by auto
  show ?case using y ys by simp
qed

lemma py_all_Inr:
  "(\<And>x. x \<in> set xs \<Longrightarrow> F x = Inr (g x)) \<Longrightarrow> py_all (map F xs) = Inr (\<forall>x \<in> set xs. g x)"
  by (induction xs) auto

lemma py_any_Inr:
  "(\<And>x. x \<in> set xs \<Longrightarrow> F x = Inr (g x)) \<Longrightarrow> py_any (map F xs) = Inr (\<exists>x \<in> set xs. g x)"
  by (induction xs) auto

lemma constant_PL_truth:
  "constant_PL d \<Longrightarrow> \<exists>b. \<forall>J. PL_truth d J = Inr b"
proof (induction d rule: constant_PL.induct)
  case (1 c s)
  then show ?case by (cases c) auto
next
  case (2 c formulas)
  have "\<forall>f \<in> set formulas. \<exists>b. \<forall>J. PL_truth f J = Inr b"
    using 2 by auto
  then obtain g where g: "\<And>f J. f \<in> set formulas \<Longrightarrow> PL_truth f J = Inr (g f)"
    by metis
  have a: "py_all (map (\<lambda>f. PL_truth f J) formulas) = Inr (\<forall>f \<in> set formulas. g f)" for J
    by (rule py_all_Inr) (use g in auto)
  have o: "py_any (map (\<lambda>f. PL_truth f J) formulas) = Inr (\<exists>f \<in> set formulas. g f)" for J
    by (rule py_any_Inr) (use g in auto)
  from "2.prems" have "c = PLAndT \<or> c = PLOrT" by simp
  then show ?case
  proof
    assume "c = PLAndT"
    then show ?thesis using a by auto
  next
    assume "c = PLOrT"
    then show ?thesis using o by auto
  qed
qed simp_all

lemma constant_PL_True_False [simp]: "constant_PL PLTrue" "constant_PL PLFalse"
  by (simp_all add: PLTrue_def PLFalse_def)

lemma PLAnd_constant:
  "constant_PL d1 \<Longrightarrow> constant_PL d2 \<Longrightarrow> \<exists>r. PLAnd [d1, d2] = Inr r \<and> constant_PL r"
  unfolding PLAnd_def by (rule constant_PL_init) auto

lemma PLOr_constant:
  "constant_PL d1 \<Longrightarrow> constant_PL d2 \<Longrightarrow> \<exists>r. PLOr [d1, d2] = Inr r \<and> constant_PL r"
  unfolding PLOr_def by (rule constant_PL_init) auto

lemma nnf_rest:
  assumes "c \<noteq> LTLfImpliesT" "2 \<le> length fs" "\<And>f. f \<in> set fs \<Longrightarrow> nnf f"
  shows "\<exists>f2. (if 2 < length fs then BinaryOperator_init c (tl fs) else item1 fs) = Inr f2 \<and> nnf f2"
proof (cases "2 < length fs")
  case True
  have "2 \<le> length (tl fs)" using True by simp
  moreover have "\<And>f. f \<in> set (tl fs) \<Longrightarrow> nnf f"
    using assms(3) by (metis list.sel(2) list.set_sel(2))
  ultimately show ?thesis
    using nnf_BinaryOperator_init[of c "tl fs"] assms(1) True by simp
next
  case False
  have "item1 fs = Inr (fs ! 1)" using assms(2) by (rule item1_nth)
  moreover have "fs ! 1 \<in> set fs" using assms(2) by simp
  ultimately show ?thesis using False assms(3) by simp
qed

lemma LTLfNext_delta_epsilon [simp]: "LTLfNext_delta f i True = PLFalse"
  by (simp add: LTLfNext_delta_def)

lemma LTLfWeakNext_delta_epsilon [simp]: "LTLfWeakNext_delta f i True = PLTrue"
  by (simp add: LTLfWeakNext_delta_def)

lemma u_delta_Until_epsilon:
  assumes f2: "(if 2 < length fs then LTLfUntil (tl fs) else item1 fs) = Inr f2"
    and "2 \<le> length fs"
    and d2: "u_delta p f2 i True = Inr d2" "constant_PL d2"
    and d1: "u_delta p (fs ! 0) i True = Inr d1" "constant_PL d1"
  shows "\<exists>d. u_delta p (BinaryOperator LTLfUntilT fs) i True = Inr d \<and> constant_PL d"
proof -
  have i0: "item0 fs = Inr (fs ! 0)" using assms(2) by (intro item0_nth) auto
  obtain a where a: "PLAnd [d1, PLFalse] = Inr a" "constant_PL a"
    using PLAnd_constant[of d1 PLFalse] d1(2) by auto
  obtain r where r: "PLOr [d2, a] = Inr r" "constant_PL r"
    using PLOr_constant[of d2 a] d2(2) a(2) by auto
  have "u_delta p (BinaryOperator LTLfUntilT fs) i True = Inr r"
    by (simp only: u_delta.simps binary_cls.case i0 f2 ebind_simps d2(1) d1(1)
        LTLfNext_delta_epsilon a(1) r(1))
  then show ?thesis using r(2) by blast
qed

lemma u_delta_Release_epsilon:
  assumes f2: "(if 2 < length fs then LTLfRelease (tl fs) else item1 fs) = Inr f2"
    and "2 \<le> length fs"
    and d2: "u_delta p f2 i True = Inr d2" "constant_PL d2"
    and d1: "u_delta p (fs ! 0) i True = Inr d1" "constant_PL d1"
  shows "\<exists>d. u_delta p (BinaryOperator LTLfReleaseT fs) i True = Inr d \<and> constant_PL d"
proof -
  have i0: "item0 fs = Inr (fs ! 0)" using assms(2) by (intro item0_nth) auto
  obtain a where a: "PLOr [d1, PLFalse] = Inr a" "constant_PL a"
    using PLOr_constant[of d1 PLFalse] d1(2) by auto
  obtain r where r: "PLAnd [d2, a] = Inr r" "constant_PL r"
    using PLAnd_constant[of d2 a] d2(2) a(2) by auto
  have "u_delta p (BinaryOperator LTLfReleaseT fs) i True = Inr r"
    by (simp only: u_delta.simps binary_cls.case i0 f2 ebind_simps d2(1) d1(1)
        LTLfNext_delta_epsilon a(1) r(1))
  then show ?thesis using r(2) by blast
qed

lemma u_delta_nnf_epsilon:
  "nnf f \<Longrightarrow> \<exists>d. u_delta p f i True = Inr d \<and> constant_PL d"
proof (induction "wt f" arbitrary: f rule: less_induct)
  case less
  note IH = less.hyps
  show ?case
  proof (cases f)
    case (AtomicFormula c s)
    then show ?thesis using less.prems by simp
  next
    case (LTLfAtomicFormula c a)
    then show ?thesis by (simp add: LTLfAtomic_delta_def)
  next
    case f: (UnaryOperator c g)
    show ?thesis
    proof (cases c)
      case PLNotT
      then show ?thesis using less.prems f by simp
    next
      case LTLfNotT
      then obtain c' a where g: "g = LTLfAtomicFormula c' a"
        using less.prems f by (cases g) auto
      show ?thesis
        by (simp add: f LTLfNotT g LTLfAtomic_delta_def eq_PLFalse)
    next
      case LTLfNextT
      then show ?thesis by (simp add: f)
    next
      case LTLfWeakNextT
      then show ?thesis by (simp add: f)
    next
      case LTLfEventuallyT
      have "nnf g" using less.prems f LTLfEventuallyT by simp
      moreover have "wt g < wt f" unfolding f by (rule wt_child_unary)
      ultimately obtain d where d: "u_delta p g i True = Inr d" "constant_PL d"
        using IH[of g] by blast
      obtain r where r: "PLOr [d, PLFalse] = Inr r" "constant_PL r"
        using PLOr_constant[of d PLFalse] d(2) by auto
      show ?thesis using d r by (simp add: f LTLfEventuallyT)
    next
      case LTLfAlwaysT
      have "nnf g" using less.prems f LTLfAlwaysT by simp
      moreover have "wt g < wt f" unfolding f by (rule wt_child_unary)
      ultimately obtain d where d: "u_delta p g i True = Inr d" "constant_PL d"
        using IH[of g] by blast
      obtain r where r: "PLAnd [d, PLTrue] = Inr r" "constant_PL r"
        using PLAnd_constant[of d PLTrue] d(2) by auto
      show ?thesis using d r by (simp add: f LTLfAlwaysT)
    qed
  next
    case f: (BinaryOperator c fs)
    have c: "c \<noteq> LTLfImpliesT" and len: "2 \<le> length fs"
      and all: "\<And>g. g \<in> set fs \<Longrightarrow> nnf g"
      using less.prems f by auto
    obtain f2 where f2: "(if 2 < length fs then BinaryOperator_init c (tl fs) else item1 fs) = Inr f2"
      "nnf f2"
      using nnf_rest[OF c len all] by blast
    have "wt f2 < wt f" unfolding f using f2(1) by (rule wt_rest_binary)
    then obtain d2 where d2: "u_delta p f2 i True = Inr d2" "constant_PL d2"
      using IH[of f2] f2(2) by blast
    have "fs ! 0 \<in> set fs" using len by (intro nth_mem) auto
    then have "nnf (fs ! 0)" "wt (fs ! 0) < wt f"
      using all wt_child_binary[of "fs ! 0" fs c] f by auto
    then obtain d1 where d1: "u_delta p (fs ! 0) i True = Inr d1" "constant_PL d1"
      using IH[of "fs ! 0"] by blast
    show ?thesis
    proof (cases c)
      case LTLfImpliesT
      then show ?thesis using c by simp
    next
      case LTLfUntilT
      show ?thesis unfolding f LTLfUntilT
        by (rule u_delta_Until_epsilon[OF _ len d2 d1])
          (use f2(1) LTLfUntilT in \<open>simp only: LTLfUntil_def\<close>)
    next
      case LTLfReleaseT
      show ?thesis unfolding f LTLfReleaseT
        by (rule u_delta_Release_epsilon[OF _ len d2 d1])
          (use f2(1) LTLfReleaseT in \<open>simp only: LTLfRelease_def\<close>)
    qed
  next
    case f: (CommutativeBinaryOperator c fs)
    have c: "c = LTLfAndT \<or> c = LTLfOrT" and len: "2 \<le> length fs"
      and all: "\<And>g. g \<in> set fs \<Longrightarrow> nnf g"
      using less.prems f by auto
    have "\<exists>d. u_delta p g i True = Inr d \<and> constant_PL d" if "g \<in> set fs" for g
      using IH[of g] all[OF that] wt_child_comm[of g fs c] that f by simp
    then obtain ds where ds: "comprehension (map (\<lambda>g. u_delta p g i True) fs) = Inr ds"
      "length ds = length fs" "\<forall>d \<in> set ds. constant_PL d"
      using comprehension_all[of fs "\<lambda>g. u_delta p g i True" constant_PL] by blast
    have l2: "2 \<le> length ds" using ds(2) len by simp
    from c show ?thesis
    proof
      assume c: "c = LTLfAndT"
      obtain r where r: "PLAnd ds = Inr r" "constant_PL r"
        using constant_PL_init[of PLAndT ds] l2 ds(3) by (auto simp: PLAnd_def)
      show ?thesis using ds(1) r by (simp add: f c)
    next
      assume c: "c = LTLfOrT"
      obtain r where r: "PLOr ds = Inr r" "constant_PL r"
        using constant_PL_init[of PLOrT ds] l2 ds(3) by (auto simp: PLOr_def)
      show ?thesis using ds(1) r by (simp add: f c)
    qed
  qed
qed

lemma well_formed_LTLfTrue [simp]: "well_formed LTLfTrue"
  by (simp add: LTLfTrue_def PLTrue_def isinstance_PLAtomic_def)

lemma well_formed_LTLfNot [simp]: "well_formed (LTLfNot f) = well_formed f"
  by (simp add: LTLfNot_def)

lemma well_formed_LTLfEventually_convert:
  "well_formed g \<Longrightarrow> \<exists>e. LTLfEventually_convert g = Inr e \<and> well_formed e"
  unfolding LTLfEventually_convert_def LTLfUntil_def
  by (rule well_formed_BinaryOperator_init) auto

lemma well_formed_LTLfAlways_convert:
  "well_formed g \<Longrightarrow> well_formed (LTLfAlways_convert g)"
  by (simp add: LTLfAlways_convert_def LTLfEventually_def)

lemma well_formed_rest:
  assumes "2 \<le> length fs" "\<And>f. f \<in> set fs \<Longrightarrow> well_formed f"
  shows "\<exists>f2. (if 2 < length fs then BinaryOperator_init c (tl fs) else item1 fs) = Inr f2
          \<and> well_formed f2"
proof (cases "2 < length fs")
  case True
  have "2 \<le> length (tl fs)" using True by simp
  moreover have "\<And>f. f \<in> set (tl fs) \<Longrightarrow> well_formed f"
    using assms(2) by (metis list.sel(2) list.set_sel(2))
  ultimately show ?thesis
    using well_formed_BinaryOperator_init[of "tl fs" c] True by simp
next
  case False
  have "item1 fs = Inr (fs ! 1)" using assms(1) by (rule item1_nth)
  moreover have "fs ! 1 \<in> set fs" using assms(1) by simp
  ultimately show ?thesis using False assms(2) by simp
qed

lemma well_formed_LTLfImplies_convert:
  assumes "2 \<le> length fs" "\<And>f. f \<in> set fs \<Longrightarrow> well_formed f"
  shows "\<exists>e. LTLfImplies_convert fs = Inr e \<and> well_formed e"
proof -
  have i0: "item0 fs = Inr (fs ! 0)" using assms(1) by (intro item0_nth) auto
  have "fs ! 0 \<in> set fs" using assms(1) by (intro nth_mem) auto
  then have w1: "well_formed (fs ! 0)" using assms(2) by simp
  obtain f2 where f2: "(if 2 < length fs then LTLfImplies (tl fs) else item1 fs) = Inr f2"
    "well_formed f2"
    using well_formed_rest[OF assms, of LTLfImpliesT] unfolding LTLfImplies_def by blast
  have "\<exists>e. LTLfOr [LTLfNot (fs ! 0), f2] = Inr e \<and> well_formed e"
    unfolding LTLfOr_def
    by (rule well_formed_CommutativeBinaryOperator_init) (use w1 f2(2) in auto)
  then show ?thesis
    by (simp only: LTLfImplies_convert_def i0 f2(1) ebind_simps)
qed

lemma well_formed_LTLfEquivalence_convert:
  assumes "2 \<le> length fs" "\<And>f. f \<in> set fs \<Longrightarrow> well_formed f"
  shows "\<exists>e. LTLfEquivalence_convert fs = Inr e \<and> well_formed e"
proof -
  obtain pos where pos: "LTLfAnd fs = Inr pos" "well_formed pos"
    using well_formed_CommutativeBinaryOperator_init[of LTLfAndT fs] assms
    unfolding LTLfAnd_def by auto
  have "\<exists>g. CommutativeBinaryOperator_init LTLfAndT (map LTLfNot fs) = Inr g \<and> well_formed g"
    by (rule well_formed_CommutativeBinaryOperator_init) (use assms in auto)
  then obtain neg where neg: "LTLfAnd (map LTLfNot fs) = Inr neg" "well_formed neg"
    unfolding LTLfAnd_def by auto
  have "\<exists>e. LTLfOr [pos, neg] = Inr e \<and> well_formed e"
    unfolding LTLfOr_def
    by (rule well_formed_CommutativeBinaryOperator_init) (use pos(2) neg(2) in auto)
  then show ?thesis
    by (simp only: LTLfEquivalence_convert_def pos(1) neg(1) ebind_simps)
qed

text \<open>The constructor calls that end a rule of \<open>to_nnf\<close>.\<close>

lemma to_nnf_children:
  assumes "\<And>g. g \<in> set gs \<Longrightarrow> \<exists>y. F g = Inr y \<and> nnf y" "2 \<le> length gs"
  shows "c \<noteq> LTLfImpliesT \<Longrightarrow>
           \<exists>r. ebind (comprehension (map F gs)) (BinaryOperator_init c) = Inr r \<and> nnf r"
    and "c' = LTLfAndT \<or> c' = LTLfOrT \<Longrightarrow>
           \<exists>r. ebind (comprehension (map F gs)) (CommutativeBinaryOperator_init c') = Inr r \<and> nnf r"
proof -
  obtain ys where ys: "comprehension (map F gs) = Inr ys" "length ys = length gs"
    "\<forall>y \<in> set ys. nnf y"
    using comprehension_all[of gs F nnf] assms(1) by blast
  have l: "2 \<le> length ys" using ys(2) assms(2) by simp
  show "\<exists>r. ebind (comprehension (map F gs)) (BinaryOperator_init c) = Inr r \<and> nnf r"
    if "c \<noteq> LTLfImpliesT"
    using nnf_BinaryOperator_init[of c ys] that l ys(3) by (simp add: ys(1))
  show "\<exists>r. ebind (comprehension (map F gs)) (CommutativeBinaryOperator_init c') = Inr r \<and> nnf r"
    if "c' = LTLfAndT \<or> c' = LTLfOrT"
    using nnf_CommutativeBinaryOperator_init[of c' ys] that l ys(3) by (simp add: ys(1))
qed

lemma nnf_unary [simp]:
  "nnf (LTLfNext f) = nnf f" "nnf (LTLfWeakNext f) = nnf f"
  by (simp_all add: LTLfNext_def LTLfWeakNext_def)

lemma constructors_eta:
  "LTLfUntil = BinaryOperator_init LTLfUntilT"
  "LTLfRelease = BinaryOperator_init LTLfReleaseT"
  "LTLfAnd = CommutativeBinaryOperator_init LTLfAndT"
  "LTLfOr = CommutativeBinaryOperator_init LTLfOrT"
  by (rule ext, simp add: LTLfUntil_def LTLfRelease_def LTLfAnd_def LTLfOr_def)+

lemma to_nnf_well_formed:
  "well_formed f \<Longrightarrow> \<exists>g. to_nnf f = Inr g \<and> nnf g"
proof (induction "wt f" arbitrary: f rule: less_induct)
  case less
  have IH: "\<exists>g. to_nnf h = Inr g \<and> nnf g" if "wt h < wt f" "well_formed h" for h
    using less.hyps[of h] that by blast
  have IHNot: "\<exists>y. to_nnf (LTLfNot x) = Inr y \<and> nnf y"
    if "wt x < wt g" "well_formed x" "f = UnaryOperator LTLfNotT g" for x g
    using IH[of "LTLfNot x"] that by (simp add: uk_def)
  show ?case
  proof (cases f)
    case (AtomicFormula c s)
    then show ?thesis using less.prems by simp
  next
    case (LTLfAtomicFormula c a)
    then show ?thesis using less.prems by simp
  next
    case f: (UnaryOperator c g)
    have wg: "well_formed g" and c: "c \<noteq> PLNotT" using less.prems f by auto
    have lg: "wt g < wt f" unfolding f by (rule wt_child_unary)
    show ?thesis
    proof (cases c)
      case PLNotT
      then show ?thesis using c by simp
    next
      case LTLfNextT
      from IH[OF lg wg] show ?thesis by (auto simp: f LTLfNextT)
    next
      case LTLfWeakNextT
      from IH[OF lg wg] show ?thesis by (auto simp: f LTLfWeakNextT)
    next
      case LTLfEventuallyT
      obtain e where e: "LTLfEventually_convert g = Inr e" "well_formed e"
        using well_formed_LTLfEventually_convert[OF wg] by blast
      have "wt e < wt f" unfolding f LTLfEventuallyT using e(1) by (rule wt_LTLfEventually_convert)
      from IH[OF this e(2)] show ?thesis by (simp add: f LTLfEventuallyT e(1))
    next
      case LTLfAlwaysT
      have "wt (LTLfAlways_convert g) < wt f" unfolding f LTLfAlwaysT
        by (rule wt_LTLfAlways_convert)
      from IH[OF this well_formed_LTLfAlways_convert[OF wg]]
      show ?thesis by (simp add: f LTLfAlwaysT)
    next
      case LTLfNotT
      note fN = f[unfolded LTLfNotT]
      show ?thesis
      proof (cases g)
        case (AtomicFormula c' s)
        then show ?thesis using wg by simp
      next
        case (LTLfAtomicFormula c' a)
        then show ?thesis using wg by (simp add: fN)
      next
        case g: (UnaryOperator c' h)
        have wh: "well_formed h" and c': "c' \<noteq> PLNotT" using wg g by auto
        have lh: "wt h < wt g" unfolding g by (rule wt_child_unary)
        show ?thesis
        proof (cases c')
          case PLNotT
          then show ?thesis using c' by simp
        next
          case LTLfNotT
          have "wt h < wt f" using lh lg by simp
          from IH[OF this wh] show ?thesis by (simp add: fN g LTLfNotT)
        next
          case LTLfNextT
          from IHNot[OF lh wh fN] show ?thesis by (auto simp: fN g LTLfNextT)
        next
          case LTLfWeakNextT
          from IHNot[OF lh wh fN] show ?thesis by (auto simp: fN g LTLfWeakNextT)
        next
          case LTLfEventuallyT
          obtain e where e: "LTLfEventually_convert h = Inr e" "well_formed e"
            using well_formed_LTLfEventually_convert[OF wh] by blast
          have "wt e < wt g" unfolding g LTLfEventuallyT
            using e(1) by (rule wt_LTLfEventually_convert)
          from IHNot[OF this e(2) fN] show ?thesis by (simp add: fN g LTLfEventuallyT e(1))
        next
          case LTLfAlwaysT
          have "wt (LTLfAlways_convert h) < wt g" unfolding g LTLfAlwaysT
            by (rule wt_LTLfAlways_convert)
          from IHNot[OF this well_formed_LTLfAlways_convert[OF wh] fN]
          show ?thesis by (simp add: fN g LTLfAlwaysT)
        qed
      next
        case g: (BinaryOperator c' hs)
        have len: "2 \<le> length hs" and all: "\<And>x. x \<in> set hs \<Longrightarrow> well_formed x"
          using wg g by auto
        have ch: "\<exists>y. to_nnf (LTLfNot x) = Inr y \<and> nnf y" if "x \<in> set hs" for x
          using IHNot[of x g] wt_child_binary[OF that, of c'] all[OF that] fN g by simp
        show ?thesis
        proof (cases c')
          case LTLfImpliesT
          obtain e where e: "LTLfImplies_convert hs = Inr e" "well_formed e"
            using well_formed_LTLfImplies_convert[OF len all] by blast
          have "wt e < wt g" unfolding g LTLfImpliesT using e(1) by (rule wt_LTLfImplies_convert)
          from IHNot[OF this e(2) fN] show ?thesis by (simp add: fN g LTLfImpliesT e(1))
        next
          case LTLfUntilT
          show ?thesis
            using to_nnf_children(1)[of hs "\<lambda>g. to_nnf (LTLfNot g)" LTLfReleaseT, OF ch len]
            by (simp add: fN g LTLfUntilT constructors_eta)
        next
          case LTLfReleaseT
          show ?thesis
            using to_nnf_children(1)[of hs "\<lambda>g. to_nnf (LTLfNot g)" LTLfUntilT, OF ch len]
            by (simp add: fN g LTLfReleaseT constructors_eta)
        qed
      next
        case g: (CommutativeBinaryOperator c' hs)
        have len: "2 \<le> length hs" and all: "\<And>x. x \<in> set hs \<Longrightarrow> well_formed x"
          and c': "c' \<noteq> PLAndT" "c' \<noteq> PLOrT"
          using wg g by auto
        have ch: "\<exists>y. to_nnf (LTLfNot x) = Inr y \<and> nnf y" if "x \<in> set hs" for x
          using IHNot[of x g] wt_child_comm[OF that, of c'] all[OF that] fN g by simp
        show ?thesis
        proof (cases c')
          case PLAndT
          then show ?thesis using c' by simp
        next
          case PLOrT
          then show ?thesis using c' by simp
        next
          case LTLfAndT
          show ?thesis
            using to_nnf_children(2)[of hs "\<lambda>g. to_nnf (LTLfNot g)" LTLfOrT, OF ch len]
            by (simp add: fN g LTLfAndT constructors_eta)
        next
          case LTLfOrT
          show ?thesis
            using to_nnf_children(2)[of hs "\<lambda>g. to_nnf (LTLfNot g)" LTLfAndT, OF ch len]
            by (simp add: fN g LTLfOrT constructors_eta)
        next
          case LTLfEquivalenceT
          obtain e where e: "LTLfEquivalence_convert hs = Inr e" "well_formed e"
            using well_formed_LTLfEquivalence_convert[OF len all] by blast
          have "wt e < wt g" unfolding g LTLfEquivalenceT
            using e(1) by (rule wt_LTLfEquivalence_convert)
          from IHNot[OF this e(2) fN] show ?thesis by (simp add: fN g LTLfEquivalenceT e(1))
        qed
      qed
    qed
  next
    case f: (BinaryOperator c fs)
    have len: "2 \<le> length fs" and all: "\<And>x. x \<in> set fs \<Longrightarrow> well_formed x"
      using less.prems f by auto
    have ch: "\<exists>y. to_nnf x = Inr y \<and> nnf y" if "x \<in> set fs" for x
      using IH[of x] wt_child_binary[OF that, of c] all[OF that] f by simp
    show ?thesis
    proof (cases c)
      case LTLfImpliesT
      obtain e where e: "LTLfImplies_convert fs = Inr e" "well_formed e"
        using well_formed_LTLfImplies_convert[OF len all] by blast
      have "wt e < wt f" unfolding f LTLfImpliesT using e(1) by (rule wt_LTLfImplies_convert)
      from IH[OF this e(2)] show ?thesis by (simp add: f LTLfImpliesT e(1))
    next
      case LTLfUntilT
      show ?thesis
        using to_nnf_children(1)[of fs to_nnf LTLfUntilT, OF ch len]
        by (simp add: f LTLfUntilT constructors_eta)
    next
      case LTLfReleaseT
      show ?thesis
        using to_nnf_children(1)[of fs to_nnf LTLfReleaseT, OF ch len]
        by (simp add: f LTLfReleaseT constructors_eta)
    qed
  next
    case f: (CommutativeBinaryOperator c fs)
    have len: "2 \<le> length fs" and all: "\<And>x. x \<in> set fs \<Longrightarrow> well_formed x"
      and c: "c \<noteq> PLAndT" "c \<noteq> PLOrT"
      using less.prems f by auto
    have ch: "\<exists>y. to_nnf x = Inr y \<and> nnf y" if "x \<in> set fs" for x
      using IH[of x] wt_child_comm[OF that, of c] all[OF that] f by simp
    show ?thesis
    proof (cases c)
      case PLAndT
      then show ?thesis using c by simp
    next
      case PLOrT
      then show ?thesis using c by simp
    next
      case LTLfAndT
      show ?thesis
        using to_nnf_children(2)[of fs to_nnf LTLfAndT, OF ch len]
        by (simp add: f LTLfAndT constructors_eta)
    next
      case LTLfOrT
      show ?thesis
        using to_nnf_children(2)[of fs to_nnf LTLfOrT, OF ch len]
        by (simp add: f LTLfOrT constructors_eta)
    next
      case LTLfEquivalenceT
      obtain e where e: "LTLfEquivalence_convert fs = Inr e" "well_formed e"
        using well_formed_LTLfEquivalence_convert[OF len all] by blast
      have "wt e < wt f" unfolding f LTLfEquivalenceT
        using e(1) by (rule wt_LTLfEquivalence_convert)
      from IH[OF this e(2)] show ?thesis by (simp add: f LTLfEquivalenceT e(1))
    qed
  qed
qed

text \<open>
  C4. For every well-formed LTLf formula \<open>\<phi>\<close> and every interpretation \<open>I\<close>, the public
  \<^verbatim>\<open>delta\<close> with \<open>\<epsilon>\<close> true does not raise and returns \<^verbatim>\<open>PLTrue\<close> or \<^verbatim>\<open>PLFalse\<close>: the normal
  form \<open>f\<close> exists, \<^verbatim>\<open>f._delta\<close> returns a residual \<open>d\<close>, the result is \<^verbatim>\<open>PLTrue\<close> exactly
  when \<open>d\<close> is true under \<^verbatim>\<open>PLFalseInterpretation\<close>, and \<open>d\<close> has that same truth value
  under every interpretation.
\<close>

theorem C4_delta_epsilon_collapses:
  assumes "well_formed phi"
  shows "\<exists>f d b. to_nnf phi = Inr f \<and> nnf f \<and> u_delta p f i True = Inr d
           \<and> (\<forall>J. PL_truth d J = Inr b)
           \<and> PL_truth d PLFalseInterpretation = Inr b
           \<and> delta p phi i True = Inr (if b then PLTrue else PLFalse)"
proof -
  obtain f where f: "to_nnf phi = Inr f" "nnf f"
    using to_nnf_well_formed[OF assms] by blast
  obtain d where d: "u_delta p f i True = Inr d" "constant_PL d"
    using u_delta_nnf_epsilon[OF f(2), of p i] by blast
  obtain b where b: "\<forall>J. PL_truth d J = Inr b"
    using constant_PL_truth[OF d(2)] by blast
  have "delta p phi i True = Inr (if b then PLTrue else PLFalse)"
    using f(1) d(1) b by (simp add: delta_def)
  then show ?thesis using f d(1) b by blast
qed

lemma until_example_well_formed:
  "well_formed (BinaryOperator LTLfUntilT [LTLfTrue, LTLfWeakNext LTLfFalse])"
  by (simp add: LTLfTrue_def LTLfFalse_def LTLfWeakNext_def PLTrue_def PLFalse_def
      isinstance_PLAtomic_def)

lemma until_example_delta:
  "delta example_python (BinaryOperator LTLfUntilT [LTLfTrue, LTLfWeakNext LTLfFalse]) {} True
     = Inr PLTrue"
  by (simp add: delta_def LTLfTrue_def LTLfFalse_def LTLfWeakNext_def LTLfUntil_def
      BinaryOperator_init_def item0_def item1_def LTLfAtomic_delta_def PLAnd_def PLOr_def
      CommutativeBinaryOperator_init_def PLTrue_def PLFalse_def PLFalseInterpretation_def)

theorem C4_delta_epsilon_collapses_witness:
  "well_formed (BinaryOperator LTLfUntilT [LTLfTrue, LTLfWeakNext LTLfFalse])
   \<and> delta example_python (BinaryOperator LTLfUntilT [LTLfTrue, LTLfWeakNext LTLfFalse]) {} True
       = Inr PLTrue
   \<and> (\<exists>f d. to_nnf (BinaryOperator LTLfUntilT [LTLfTrue, LTLfWeakNext LTLfFalse]) = Inr f
          \<and> u_delta example_python f {} True = Inr d \<and> (\<forall>J. PL_truth d J = Inr True))"
proof -
  let ?X = "BinaryOperator LTLfUntilT [LTLfTrue, LTLfWeakNext LTLfFalse]"
  from C4_delta_epsilon_collapses[OF until_example_well_formed, of example_python "{}"]
  obtain f d b where f: "to_nnf ?X = Inr f" and d: "u_delta example_python f {} True = Inr d"
    and b: "\<forall>J. PL_truth d J = Inr b"
    and r: "delta example_python ?X {} True = Inr (if b then PLTrue else PLFalse)"
    by (elim exE conjE)
  have "b" using r until_example_delta by (cases b) simp_all
  then have "\<forall>J. PL_truth d J = Inr True" using b by simp
  then show ?thesis using f d until_example_well_formed until_example_delta by blast
qed

end
